theory Spec2Isabelle
  imports Main "HOL-Library.Word"
begin

section \<open>The hash module of YARA: \<^verbatim>\<open>libyara/modules/hash.c\<close>\<close>

text \<open>
  The module offers \<^verbatim>\<open>md5\<close>, \<^verbatim>\<open>sha1\<close>, \<^verbatim>\<open>sha256\<close> and \<^verbatim>\<open>checksum32\<close>, each in two
  forms: over a literal string, and over a range \<open>(offset, length)\<close> of the scanned
  memory, which is a list of blocks. The range forms keep one cache entry per algorithm.

  Integers. \<^verbatim>\<open>offset\<close>, \<^verbatim>\<open>length\<close>, \<^verbatim>\<open>base\<close> and \<^verbatim>\<open>size\<close> are modelled as mathematical
  integers. The declaration of \<^verbatim>\<open>YR_MEMORY_BLOCK\<close> is not part of the file; its fields are
  taken as the specification's data model gives them (a base, a size, a byte buffer).
  The C code computes \<^verbatim>\<open>block->base + block->size\<close> and \<^verbatim>\<open>offset + length\<close> in 64 bits,
  where signed overflow has no defined result; the model agrees with the code whenever
  these sums stay below \<open>2^63\<close>, which \<open>well_formed\<close> states of a block and \<open>in_range\<close> of
  a request. The checksum
  is an \<^verbatim>\<open>uint32_t\<close> and is modelled as a 32-bit word, so that its additions wrap.
\<close>

type_synonym byte = "8 word"

text \<open>An address of a character buffer (a value of type \<^verbatim>\<open>char*\<close>).\<close>

type_synonym addr = nat

subsection \<open>Data\<close>

text \<open>
  Modelled from the spec: the declaration of \<^verbatim>\<open>YR_MEMORY_BLOCK\<close> is in a header that is
  not among the sources. The spec's segment has a base, a size and a byte buffer of that
  size; the code reads \<^verbatim>\<open>block->base\<close>, \<^verbatim>\<open>block->size\<close> and \<^verbatim>\<open>block->data\<close>. The \<^verbatim>\<open>next\<close>
  pointer is the tail of the list of blocks. The field \<^verbatim>\<open>size\<close> is called \<open>size_b\<close>.
\<close>

record YR_MEMORY_BLOCK =
  data :: "byte list"
  size_b :: int
  base :: int

text \<open>\<^verbatim>\<open>CACHED_HASH\<close> (fields suffixed \<open>_h\<close>). The field \<^verbatim>\<open>digest\<close> is a \<^verbatim>\<open>char*\<close>: the
  entry holds the address of a buffer, not the characters.\<close>

record CACHED_HASH =
  isSet_h :: bool
  offset_h :: int
  length_h :: int
  digest_h :: addr

text \<open>\<^verbatim>\<open>CACHED_CHECKSUM\<close> (fields suffixed \<open>_c\<close>). The sum is stored by value.\<close>

record CACHED_CHECKSUM =
  isSet_c :: bool
  offset_c :: int
  length_c :: int
  sum_c :: int

record CACHE =
  md5 :: CACHED_HASH
  sha1 :: CACHED_HASH
  sha256 :: CACHED_HASH
  crc32 :: CACHED_CHECKSUM

text \<open>
  Modelled from the spec: \<^verbatim>\<open>ERROR_WRONG_ARGUMENTS\<close>, \<^verbatim>\<open>UNDEFINED\<close> and the macros
  \<^verbatim>\<open>return_string\<close> and \<^verbatim>\<open>return_integer\<close> come from headers that are not among the
  sources. The spec has an invalid-argument error that is distinct from the undefined
  result, and undefined as a sentinel distinct from every digest and every checksum.

  What a module function hands back. The C function returns an error code; with
  \<^verbatim>\<open>ERROR_SUCCESS\<close> it has set the return object to a value or to \<^verbatim>\<open>UNDEFINED\<close>.
  \<open>NULL_MEM_BLOCK\<close> stands for the dereference of \<^verbatim>\<open>context->mem_block\<close> when the list of
  blocks is empty; the test \<^verbatim>\<open>offset < 0 || length < 0 || offset < context->mem_block->base\<close>
  reaches it only when the offset and the length are not negative. \<open>Indeterminate\<close> is the return object when \<^verbatim>\<open>return_string\<close> copies
  from an address at which no initialised character buffer is alive: the C language
  does not determine the characters read.
\<close>

datatype error = ERROR_WRONG_ARGUMENTS | NULL_MEM_BLOCK

datatype 'a retval = UNDEFINED | Value 'a | Indeterminate

text \<open>
  The digest engines (\<^verbatim>\<open>MD5_Init\<close>, \<^verbatim>\<open>MD5_Update\<close>, \<^verbatim>\<open>MD5_Final\<close> and their SHA-1 and
  SHA-256 counterparts) belong to OpenSSL. An engine is a parameter of the model:
  an initial context, the update with a run of bytes, and the digest buffer that
  \<^verbatim>\<open>Final\<close> fills (an array, read by index).
\<close>

record 'ctx digest_engine =
  Init :: 'ctx
  Update :: "'ctx \<Rightarrow> byte list \<Rightarrow> 'ctx"
  Final :: "'ctx \<Rightarrow> nat \<Rightarrow> byte"

definition MD5_DIGEST_LENGTH :: nat where "MD5_DIGEST_LENGTH = 16"
definition SHA_DIGEST_LENGTH :: nat where "SHA_DIGEST_LENGTH = 20"
definition SHA256_DIGEST_LENGTH :: nat where "SHA256_DIGEST_LENGTH = 32"

subsection \<open>\<^verbatim>\<open>digest_to_ascii\<close>\<close>

definition hex_digit :: "nat \<Rightarrow> char" where
  "hex_digit n = ''0123456789abcdef'' ! (n mod 16)"

text \<open>\<^verbatim>\<open>sprintf(p, "%02x", digest[i])\<close> on an \<^verbatim>\<open>unsigned char\<close>: two lowercase digits.\<close>

definition sprintf_02x :: "byte \<Rightarrow> string" where
  "sprintf_02x b = [hex_digit (unat b div 16), hex_digit (unat b mod 16)]"

definition digest_to_ascii :: "(nat \<Rightarrow> byte) \<Rightarrow> nat \<Rightarrow> string" where
  "digest_to_ascii digest digest_length =
     concat (map (\<lambda>i. sprintf_02x (digest i)) [0..<digest_length])"

subsection \<open>The literal-string forms\<close>

definition string_md5 :: "'ctx digest_engine \<Rightarrow> byte list \<Rightarrow> error + string retval" where
  "string_md5 md5e s =
     Inr (Value (digest_to_ascii (Final md5e (Update md5e (Init md5e) s)) MD5_DIGEST_LENGTH))"

definition string_sha256 :: "'ctx digest_engine \<Rightarrow> byte list \<Rightarrow> error + string retval" where
  "string_sha256 sha256e s =
     Inr (Value (digest_to_ascii (Final sha256e (Update sha256e (Init sha256e) s))
                   SHA256_DIGEST_LENGTH))"

definition string_sha1 :: "'ctx digest_engine \<Rightarrow> byte list \<Rightarrow> error + string retval" where
  "string_sha1 sha1e s =
     Inr (Value (digest_to_ascii (Final sha1e (Update sha1e (Init sha1e) s)) SHA_DIGEST_LENGTH))"

text \<open>The loop \<^verbatim>\<open>for (i = 0; i < n; i++) checksum += bytes[i]\<close> on an \<^verbatim>\<open>uint32_t\<close>.\<close>

definition checksum_add :: "32 word \<Rightarrow> byte list \<Rightarrow> 32 word" where
  "checksum_add checksum bytes = foldl (\<lambda>c x. c + ucast x) checksum bytes"

definition string_checksum32 :: "byte list \<Rightarrow> error + int retval" where
  "string_checksum32 s = Inr (Value (uint (checksum_add 0 s)))"

subsection \<open>The walk over the memory blocks\<close>

text \<open>
  Modelled from the spec: the macros \<^verbatim>\<open>foreach_memory_block\<close> and \<^verbatim>\<open>yr_min\<close> come from
  headers that are not among the sources; the spec walks the segment sequence in order,
  and takes the minimum of the remaining length and the bytes left in the segment.

  The body of \<^verbatim>\<open>foreach_memory_block(context, block) { ... }\<close>, the same in the four
  range functions up to the engine that receives the bytes. \<open>None\<close> is a
  \<^verbatim>\<open>return UNDEFINED\<close> (inside the loop, or after it when \<^verbatim>\<open>past_first_block\<close> is
  false); \<open>Some ctx\<close> is the engine state with which the code goes on to finalise.
  The variable \<^verbatim>\<open>length\<close> is called \<open>len\<close>.
\<close>

fun foreach_memory_block ::
  "('ctx \<Rightarrow> byte list \<Rightarrow> 'ctx) \<Rightarrow> YR_MEMORY_BLOCK list \<Rightarrow> int \<Rightarrow> int \<Rightarrow> 'ctx \<Rightarrow> bool
     \<Rightarrow> 'ctx option" where
  "foreach_memory_block update [] offset len ctx past_first_block =
     (if past_first_block then Some ctx else None)"
| "foreach_memory_block update (block # rest) offset len ctx past_first_block =
     (if offset \<ge> base block \<and> offset < base block + size_b block then
        let data_offset = offset - base block;
            data_len = min len (size_b block - data_offset);
            offset' = offset + data_len;
            len' = len - data_len;
            ctx' = update ctx (take (nat data_len) (drop (nat data_offset) (data block)))
        in if base block + size_b block > offset' + len' then Some ctx'
           else foreach_memory_block update rest offset' len' ctx' True
      else if past_first_block then None
      else if base block + size_b block > offset + len then None
      else foreach_memory_block update rest offset len ctx False)"

subsection \<open>The data-range forms\<close>

text \<open>
  \<^verbatim>\<open>return_string(p)\<close> for a pointer \<open>p\<close>: \<open>stack\<close> maps the address of every
  initialised character buffer that is alive to its contents.
\<close>

definition return_string :: "(addr \<rightharpoonup> string) \<Rightarrow> addr \<Rightarrow> string retval" where
  "return_string stack p = (case stack p of None \<Rightarrow> Indeterminate | Some s \<Rightarrow> Value s)"

text \<open>
  \<^verbatim>\<open>data_md5\<close>, \<^verbatim>\<open>data_sha1\<close> and \<^verbatim>\<open>data_sha256\<close> are one text in the source, up to
  the engine, the digest length and the cache entry; \<open>data_digest\<close> is that text,
  with the entry given by its selector \<open>slot\<close> and its update \<open>slot_update\<close>.

  \<open>frame\<close> is the address of the function's own automatic array \<^verbatim>\<open>digest_ascii\<close>, and
  \<open>stack\<close> the character buffers alive in the callers. At the cache test the own
  array is not yet written, so a read at \<open>frame\<close> finds nothing initialised. After a
  computation the entry's \<^verbatim>\<open>digest\<close> is set to \<open>frame\<close>; the array itself ends with the
  call, so the buffers alive after the call are those of \<open>stack\<close> again.
\<close>

definition data_digest ::
  "'ctx digest_engine \<Rightarrow> nat \<Rightarrow> (CACHE \<Rightarrow> CACHED_HASH)
     \<Rightarrow> ((CACHED_HASH \<Rightarrow> CACHED_HASH) \<Rightarrow> CACHE \<Rightarrow> CACHE)
     \<Rightarrow> YR_MEMORY_BLOCK list \<Rightarrow> addr \<Rightarrow> (addr \<rightharpoonup> string) \<Rightarrow> CACHE \<Rightarrow> int \<Rightarrow> int
     \<Rightarrow> (error + string retval) \<times> CACHE" where
  "data_digest E digest_length slot slot_update blocks frame stack cache offset len =
     (if offset < 0 \<or> len < 0 then (Inl ERROR_WRONG_ARGUMENTS, cache)
      else case blocks of
        [] \<Rightarrow> (Inl NULL_MEM_BLOCK, cache)
      | mem_block # _ \<Rightarrow>
          if offset < base mem_block
          then (Inl ERROR_WRONG_ARGUMENTS, cache)
          else if isSet_h (slot cache) \<and> offset_h (slot cache) = offset
                  \<and> length_h (slot cache) = len
          then (Inr (return_string (stack(frame := None)) (digest_h (slot cache))), cache)
          else
            let cache1 = slot_update (\<lambda>c. c\<lparr>offset_h := offset, length_h := len\<rparr>) cache
            in (case foreach_memory_block (Update E) blocks offset len (Init E) False of
                  None \<Rightarrow> (Inr UNDEFINED, cache1)
                | Some ctx \<Rightarrow>
                    let digest_ascii = digest_to_ascii (Final E ctx) digest_length;
                        cache2 = slot_update (\<lambda>c. c\<lparr>isSet_h := True, digest_h := frame\<rparr>) cache1
                    in (Inr (Value digest_ascii), cache2)))"

definition data_md5 where
  "data_md5 md5e = data_digest md5e MD5_DIGEST_LENGTH md5 md5_update"

definition data_sha1 where
  "data_sha1 sha1e = data_digest sha1e SHA_DIGEST_LENGTH sha1 sha1_update"

definition data_sha256 where
  "data_sha256 sha256e = data_digest sha256e SHA256_DIGEST_LENGTH sha256 sha256_update"

definition data_checksum32 ::
  "YR_MEMORY_BLOCK list \<Rightarrow> CACHE \<Rightarrow> int \<Rightarrow> int \<Rightarrow> (error + int retval) \<times> CACHE" where
  "data_checksum32 blocks cache offset len =
     (if offset < 0 \<or> len < 0 then (Inl ERROR_WRONG_ARGUMENTS, cache)
      else case blocks of
        [] \<Rightarrow> (Inl NULL_MEM_BLOCK, cache)
      | mem_block # _ \<Rightarrow>
          if offset < base mem_block
          then (Inl ERROR_WRONG_ARGUMENTS, cache)
          else if isSet_c (crc32 cache) \<and> offset_c (crc32 cache) = offset
                  \<and> length_c (crc32 cache) = len
          then (Inr (Value (sum_c (crc32 cache))), cache)
          else
            let cache1 = crc32_update (\<lambda>c. c\<lparr>offset_c := offset, length_c := len\<rparr>) cache
            in (case foreach_memory_block checksum_add blocks offset len 0 False of
                  None \<Rightarrow> (Inr UNDEFINED, cache1)
                | Some checksum \<Rightarrow>
                    let cache2 = crc32_update
                                   (\<lambda>c. c\<lparr>isSet_c := True, sum_c := uint checksum\<rparr>) cache1
                    in (Inr (Value (uint checksum)), cache2)))"

subsection \<open>The module's life cycle\<close>

text \<open>
  \<^verbatim>\<open>module_load\<close> stores the pointer that \<^verbatim>\<open>yr_malloc(sizeof(CACHE))\<close> returns and writes
  nothing through it. \<^verbatim>\<open>yr_malloc\<close> is not part of the file; the contents of the block
  it hands over are the parameter \<open>block\<close>. The result is the error code and the
  cache of the new session.
\<close>

datatype status = ERROR_SUCCESS

definition module_load :: "CACHE \<Rightarrow> status \<times> CACHE" where
  "module_load block = (ERROR_SUCCESS, block)"

subsection \<open>Vocabulary of the properties\<close>

text \<open>The test of the loop: the address \<open>a\<close> lies in the block.\<close>

definition in_block :: "YR_MEMORY_BLOCK \<Rightarrow> int \<Rightarrow> bool" where
  "in_block b a = (base b \<le> a \<and> a < base b + size_b b)"

definition mapped :: "YR_MEMORY_BLOCK list \<Rightarrow> int \<Rightarrow> bool" where
  "mapped blocks a = (\<exists>b\<in>set blocks. in_block b a)"

text \<open>The whole range \<open>[offset, offset + len)\<close> is backed by blocks.\<close>

definition covered :: "YR_MEMORY_BLOCK list \<Rightarrow> int \<Rightarrow> int \<Rightarrow> bool" where
  "covered blocks offset len = (\<forall>a. offset \<le> a \<and> a < offset + len \<longrightarrow> mapped blocks a)"

text \<open>A gap between blocks: an address in no block, with a block further up.\<close>

definition gap_at :: "YR_MEMORY_BLOCK list \<Rightarrow> int \<Rightarrow> bool" where
  "gap_at blocks a = (\<not> mapped blocks a \<and> (\<exists>b\<in>set blocks. a < base b))"

text \<open>A gap strictly inside the range, after its first address and before its end.\<close>

definition gap_inside :: "YR_MEMORY_BLOCK list \<Rightarrow> int \<Rightarrow> int \<Rightarrow> bool" where
  "gap_inside blocks offset len = (\<exists>a. offset < a \<and> a < offset + len \<and> gap_at blocks a)"

text \<open>
  The range starts in a block, has no gap inside, and its end address \<open>offset + len\<close>
  is the first address of a gap: the range stops exactly where a block stops, and the
  next block lies further up.
\<close>

definition ends_before_gap :: "YR_MEMORY_BLOCK list \<Rightarrow> int \<Rightarrow> int \<Rightarrow> bool" where
  "ends_before_gap blocks offset len =
     (mapped blocks offset \<and> \<not> gap_inside blocks offset len \<and> gap_at blocks (offset + len))"

text \<open>
  The blocks as the scanner supplies them: in ascending order of base and without
  overlap (the walk assumes it and does not test it).
\<close>

fun ascending :: "YR_MEMORY_BLOCK list \<Rightarrow> bool" where
  "ascending [] = True"
| "ascending (b # bs) = ((\<forall>c\<in>set bs. base b + size_b b \<le> base c) \<and> ascending bs)"

text \<open>
  A block whose \<^verbatim>\<open>size\<close> is the length of its buffer, not empty, and inside the
  64-bit address space.
\<close>

definition well_formed :: "YR_MEMORY_BLOCK \<Rightarrow> bool" where
  "well_formed b =
     (size_b b = int (length (data b)) \<and> 0 < size_b b \<and> 0 \<le> base b
      \<and> base b + size_b b < 2 ^ 63)"

definition segments :: "YR_MEMORY_BLOCK list \<Rightarrow> bool" where
  "segments blocks = ((\<forall>b\<in>set blocks. well_formed b) \<and> ascending blocks)"

text \<open>The request stays inside the 64-bit integers.\<close>

definition in_range :: "int \<Rightarrow> int \<Rightarrow> bool" where
  "in_range offset len = (offset + len < 2 ^ 63)"

text \<open>
  Reading hexadecimal text back, by the ASCII codes of the digits \<open>0\<close> to \<open>9\<close> and \<open>a\<close> to
  \<open>f\<close>: the value of one digit (16 for any other character), and the bytes that a string
  of digit pairs denotes.
\<close>

definition hex_value :: "char \<Rightarrow> nat" where
  "hex_value c =
     (let n = of_char c :: nat
      in if 48 \<le> n \<and> n \<le> 57 then n - 48
         else if 97 \<le> n \<and> n \<le> 102 then n - 87
         else 16)"

fun decode_hex :: "string \<Rightarrow> byte list" where
  "decode_hex (hi # lo # rest) = of_nat (16 * hex_value hi + hex_value lo) # decode_hex rest"
| "decode_hex rest = []"

text \<open>The cache test of the range functions, on an entry.\<close>

definition hit_h :: "CACHED_HASH \<Rightarrow> int \<Rightarrow> int \<Rightarrow> bool" where
  "hit_h e offset len = (isSet_h e \<and> offset_h e = offset \<and> length_h e = len)"

definition hit_c :: "CACHED_CHECKSUM \<Rightarrow> int \<Rightarrow> int \<Rightarrow> bool" where
  "hit_c e offset len = (isSet_c e \<and> offset_c e = offset \<and> length_c e = len)"

text \<open>
  The bytes that a walk feeds to its engine, in order: the walk itself, run with the
  engine that keeps what it receives.
\<close>

definition resolve_range :: "YR_MEMORY_BLOCK list \<Rightarrow> int \<Rightarrow> int \<Rightarrow> byte list option" where
  "resolve_range blocks offset len = foreach_memory_block (@) blocks offset len [] False"

text \<open>
  The bytes of one block that lie in the range \<open>[offset, offset + len)\<close>, and the bytes
  of the range that lie in blocks, in the order of the blocks.
\<close>

definition block_slice :: "YR_MEMORY_BLOCK \<Rightarrow> int \<Rightarrow> int \<Rightarrow> byte list" where
  "block_slice b offset len =
     take (nat (min (offset + len) (base b + size_b b) - max offset (base b)))
       (drop (nat (max offset (base b) - base b)) (data b))"

definition range_bytes :: "YR_MEMORY_BLOCK list \<Rightarrow> int \<Rightarrow> int \<Rightarrow> byte list" where
  "range_bytes blocks offset len = concat (map (\<lambda>b. block_slice b offset len) blocks)"

text \<open>
  What the range functions rely on in an engine: feeding two runs of bytes one after
  the other is feeding their concatenation.
\<close>

definition streaming :: "'ctx digest_engine \<Rightarrow> bool" where
  "streaming E = (\<forall>c a b. Update E (Update E c a) b = Update E c (a @ b))"

subsection \<open>Sample memories and caches\<close>

definition abcd :: "byte list" where "abcd = [97, 98, 99, 100]"

definition efgh :: "byte list" where "efgh = [101, 102, 103, 104]"

text \<open>One block, as in the scan of a file.\<close>

definition one_block :: "YR_MEMORY_BLOCK list" where
  "one_block = [\<lparr>data = abcd, size_b = 4, base = 0\<rparr>]"

text \<open>Two adjacent blocks.\<close>

definition adjacent_blocks :: "YR_MEMORY_BLOCK list" where
  "adjacent_blocks =
     [\<lparr>data = abcd, size_b = 4, base = 0\<rparr>, \<lparr>data = efgh, size_b = 4, base = 4\<rparr>]"

text \<open>Two blocks with the addresses 4 to 7 between them unmapped.\<close>

definition apart_blocks :: "YR_MEMORY_BLOCK list" where
  "apart_blocks =
     [\<lparr>data = abcd, size_b = 4, base = 0\<rparr>, \<lparr>data = efgh, size_b = 4, base = 8\<rparr>]"

text \<open>One block of 16843010 bytes \<^verbatim>\<open>0xFF\<close>: their sum is \<open>2^32 + 254\<close>.\<close>

definition ff_block :: "YR_MEMORY_BLOCK list" where
  "ff_block = [\<lparr>data = replicate 16843010 255, size_b = 16843010, base = 0\<rparr>]"

text \<open>A cache whose bytes are all zero: every entry unset.\<close>

definition zero_hash :: CACHED_HASH where
  "zero_hash = \<lparr>isSet_h = False, offset_h = 0, length_h = 0, digest_h = 0\<rparr>"

definition zero_checksum :: CACHED_CHECKSUM where
  "zero_checksum = \<lparr>isSet_c = False, offset_c = 0, length_c = 0, sum_c = 0\<rparr>"

definition zero_cache :: CACHE where
  "zero_cache = \<lparr>md5 = zero_hash, sha1 = zero_hash, sha256 = zero_hash, crc32 = zero_checksum\<rparr>"

text \<open>
  A block of memory as an allocator may hand it over when it reuses the storage of an
  earlier cache: the checksum entry still reads as set, for the range \<open>(0, 4)\<close>, with
  the sum 7.
\<close>

definition reused_block :: CACHE where
  "reused_block = zero_cache\<lparr>crc32 := \<lparr>isSet_c = True, offset_c = 0, length_c = 4, sum_c = 7\<rparr>\<rparr>"

section \<open>Properties\<close>

lemmas sample_defs = one_block_def adjacent_blocks_def apart_blocks_def ff_block_def abcd_def
  efgh_def zero_cache_def zero_hash_def zero_checksum_def reused_block_def

subsection \<open>When the walk gives up\<close>

text \<open>
  Over ascending, non-empty blocks the walk ends in \<^verbatim>\<open>return UNDEFINED\<close> exactly when
  the start offset lies in no block, or some address after the start and up to \<^emph>\<open>and
  including\<close> \<open>offset + len\<close> is the first of a gap. \<open>walk_past\<close> is the part of the walk
  after the first block that took part, \<open>walk_first\<close> the whole walk.
\<close>

lemma mapped_Nil [simp]: "\<not> mapped [] a" by (simp add: mapped_def)
lemma mapped_Cons: "mapped (b # bs) a = (in_block b a \<or> mapped bs a)" by (simp add: mapped_def)
lemma gap_at_Nil [simp]: "\<not> gap_at [] a" by (simp add: gap_at_def)

lemma walk_past:
  assumes "\<forall>b\<in>set bs. 0 < size_b b" "ascending bs" "\<forall>b\<in>set bs. off \<le> base b" "0 \<le> len"
  shows "(foreach_memory_block upd bs off len ctx True = None)
           = (\<exists>a. off \<le> a \<and> a \<le> off + len \<and> gap_at bs a)"
  using assms
proof (induction bs arbitrary: off len ctx)
  case Nil
  then show ?case by simp
next
  case (Cons b bs)
  have pos: "0 < size_b b" using Cons.prems(1) by simp
  have lo: "off \<le> base b" using Cons.prems(3) by simp
  have later: "\<forall>c\<in>set bs. base b + size_b b \<le> base c" using Cons.prems(2) by simp
  show ?case
  proof (cases "in_block b off")
    case True
    then have eq: "base b = off" using lo by (simp add: in_block_def)
    show ?thesis
    proof (cases "len < size_b b")
      case short: True
      have "\<not> gap_at (b # bs) a" if "off \<le> a" "a \<le> off + len" for a
        using that short eq by (simp add: gap_at_def mapped_Cons in_block_def)
      then show ?thesis using True short eq Cons.prems(4) by (auto simp add: in_block_def Let_def)
    next
      case long: False
      have step: "foreach_memory_block upd (b # bs) off len ctx True
           = foreach_memory_block upd bs (off + size_b b) (len - size_b b)
               (upd ctx (take (nat (size_b b)) (drop (nat 0) (data b)))) True"
        using True long eq by (simp add: in_block_def Let_def min_def)
      have ih: "(foreach_memory_block upd bs (off + size_b b) (len - size_b b) c True = None)
           = (\<exists>a. off + size_b b \<le> a \<and> a \<le> off + size_b b + (len - size_b b) \<and> gap_at bs a)" for c
        using Cons.IH[of "off + size_b b" "len - size_b b" c] Cons.prems long later eq by simp
      have "(\<exists>a. off + size_b b \<le> a \<and> a \<le> off + size_b b + (len - size_b b) \<and> gap_at bs a)
          = (\<exists>a. off \<le> a \<and> a \<le> off + len \<and> gap_at (b # bs) a)"
      proof
        assume "\<exists>a. off + size_b b \<le> a \<and> a \<le> off + size_b b + (len - size_b b) \<and> gap_at bs a"
        then obtain a where a: "off + size_b b \<le> a" "a \<le> off + len" "gap_at bs a" by auto
        have "gap_at (b # bs) a"
          using a eq by (auto simp add: gap_at_def mapped_Cons in_block_def)
        then show "\<exists>a. off \<le> a \<and> a \<le> off + len \<and> gap_at (b # bs) a"
          using a pos by (intro exI[of _ a]) simp
      next
        assume "\<exists>a. off \<le> a \<and> a \<le> off + len \<and> gap_at (b # bs) a"
        then obtain a where a: "off \<le> a" "a \<le> off + len" "gap_at (b # bs) a" by auto
        have out: "off + size_b b \<le> a"
          using a eq by (simp add: gap_at_def mapped_Cons in_block_def)
        have "gap_at bs a"
          using a out pos eq by (auto simp add: gap_at_def mapped_Cons in_block_def)
        then show "\<exists>a. off + size_b b \<le> a \<and> a \<le> off + size_b b + (len - size_b b) \<and> gap_at bs a"
          using a out by (intro exI[of _ a]) simp
      qed
      then show ?thesis using step ih by simp
    qed
  next
    case False
    then have above: "off < base b" using lo pos by (simp add: in_block_def)
    have "gap_at (b # bs) off"
      using above later pos by (auto simp add: gap_at_def mapped_Cons mapped_def in_block_def)
    then have "\<exists>a. off \<le> a \<and> a \<le> off + len \<and> gap_at (b # bs) a"
      using Cons.prems(4) by (intro exI[of _ off]) simp
    then show ?thesis using above by simp
  qed
qed


lemma walk_first:
  assumes "\<forall>b\<in>set bs. 0 < size_b b" "ascending bs" "0 \<le> len"
  shows "(foreach_memory_block upd bs off len ctx False = None)
           = (\<not> mapped bs off \<or> (\<exists>a. off < a \<and> a \<le> off + len \<and> gap_at bs a))"
  using assms
proof (induction bs arbitrary: ctx)
  case Nil
  then show ?case by simp
next
  case (Cons b bs)
  have pos: "0 < size_b b" using Cons.prems(1) by simp
  have later: "\<forall>c\<in>set bs. base b + size_b b \<le> base c" using Cons.prems(2) by simp
  have len: "0 \<le> len" using Cons.prems(3) .
  show ?case
  proof (cases "in_block b off")
    case True
    then have inb: "base b \<le> off" "off < base b + size_b b" by (simp_all add: in_block_def)
    have m: "mapped (b # bs) off" using True by (simp add: mapped_Cons)
    show ?thesis
    proof (cases "off + len < base b + size_b b")
      case short: True
      have "\<not> gap_at (b # bs) a" if "off < a" "a \<le> off + len" for a
        using that short inb by (simp add: gap_at_def mapped_Cons in_block_def)
      then show ?thesis using m short inb by (auto simp add: Let_def)
    next
      case long: False
      define e where "e = base b + size_b b"
      define dl where "dl = min len (size_b b - (off - base b))"
      have dleq: "dl = e - off" using long by (simp add: dl_def e_def min_def)
      have step: "foreach_memory_block upd (b # bs) off len ctx False
           = foreach_memory_block upd bs (off + dl) (len - dl)
               (upd ctx (take (nat dl) (drop (nat (off - base b)) (data b)))) True"
        using inb long by (simp add: Let_def dl_def)
      have past: "(foreach_memory_block upd bs (off + dl) (len - dl) c True = None)
           = (\<exists>a. e \<le> a \<and> a \<le> e + (off + len - e) \<and> gap_at bs a)" for c
      proof -
        have A: "off + dl = e" and B: "len - dl = off + len - e" using dleq by simp_all
        have "(foreach_memory_block upd bs e (off + len - e) c True = None)
           = (\<exists>a. e \<le> a \<and> a \<le> e + (off + len - e) \<and> gap_at bs a)"
          using Cons.prems long later
          by (intro walk_past) (simp_all add: e_def)
        then show ?thesis unfolding A B .
      qed
      have "(\<exists>a. e \<le> a \<and> a \<le> e + (off + len - e) \<and> gap_at bs a)
          = (\<exists>a. off < a \<and> a \<le> off + len \<and> gap_at (b # bs) a)"
      proof
        assume "\<exists>a. e \<le> a \<and> a \<le> e + (off + len - e) \<and> gap_at bs a"
        then obtain a where a: "e \<le> a" "a \<le> off + len" "gap_at bs a" by auto
        have "gap_at (b # bs) a"
          using a by (auto simp add: gap_at_def mapped_Cons in_block_def e_def)
        then show "\<exists>a. off < a \<and> a \<le> off + len \<and> gap_at (b # bs) a"
          using a inb by (intro exI[of _ a]) (simp add: e_def)
      next
        assume "\<exists>a. off < a \<and> a \<le> off + len \<and> gap_at (b # bs) a"
        then obtain a where a: "off < a" "a \<le> off + len" "gap_at (b # bs) a" by auto
        have out: "e \<le> a"
          using a inb by (simp add: gap_at_def mapped_Cons in_block_def e_def)
        have "gap_at bs a"
          using a out pos by (auto simp add: gap_at_def mapped_Cons in_block_def e_def)
        then show "\<exists>a. e \<le> a \<and> a \<le> e + (off + len - e) \<and> gap_at bs a"
          using a out by (intro exI[of _ a]) simp
      qed
      then show ?thesis using step past m by simp
    qed
  next
    case False
    show ?thesis
    proof (cases "off < base b")
      case before: True
      have un: "\<not> mapped (b # bs) off"
        using before later pos by (auto simp add: mapped_Cons mapped_def in_block_def)
      then have unb: "\<not> mapped bs off" by (simp add: mapped_Cons)
      have "foreach_memory_block upd (b # bs) off len ctx False = None"
        using before unb Cons.IH[of ctx] Cons.prems by auto
      then show ?thesis using un by simp
    next
      case after: False
      then have beyond: "base b + size_b b \<le> off" using False by (simp add: in_block_def)
      have step: "foreach_memory_block upd (b # bs) off len ctx False
           = foreach_memory_block upd bs off len ctx False"
        using beyond len by simp
      have meq: "mapped (b # bs) off = mapped bs off" using False by (simp add: mapped_Cons)
      have geq: "gap_at (b # bs) a = gap_at bs a" if "off < a" for a
        using that beyond pos by (auto simp add: gap_at_def mapped_Cons in_block_def)
      have "(\<exists>a. off < a \<and> a \<le> off + len \<and> gap_at (b # bs) a)
          = (\<exists>a. off < a \<and> a \<le> off + len \<and> gap_at bs a)"
        using geq by auto
      then show ?thesis using step meq Cons.IH[of ctx] Cons.prems by simp
    qed
  qed
qed

text \<open>On a cache miss with valid arguments, the result is read off the walk.\<close>

lemma data_digest_walk:
  assumes "0 \<le> offset" "0 \<le> len" "base mem_block \<le> offset" "\<not> hit_h (slot cache) offset len"
  shows "fst (data_digest E n slot slot_update (mem_block # rest) frame stack cache offset len)
       = (case foreach_memory_block (Update E) (mem_block # rest) offset len (Init E) False of
            None \<Rightarrow> Inr UNDEFINED
          | Some ctx \<Rightarrow> Inr (Value (digest_to_ascii (Final E ctx) n)))"
  using assms
  by (auto simp add: data_digest_def hit_h_def Let_def split: option.split
      simp del: foreach_memory_block.simps)

lemma data_checksum32_walk:
  assumes "0 \<le> offset" "0 \<le> len" "base mem_block \<le> offset" "\<not> hit_c (crc32 cache) offset len"
  shows "fst (data_checksum32 (mem_block # rest) cache offset len)
       = (case foreach_memory_block checksum_add (mem_block # rest) offset len 0 False of
            None \<Rightarrow> Inr UNDEFINED
          | Some checksum \<Rightarrow> Inr (Value (uint checksum)))"
  using assms
  by (auto simp add: data_checksum32_def hit_c_def Let_def split: option.split
      simp del: foreach_memory_block.simps)

lemma walk_undefined:
  assumes "segments blocks" "0 \<le> len" "\<not> ends_before_gap blocks offset len"
  shows "(foreach_memory_block upd blocks offset len ctx False = None)
       = (\<not> mapped blocks offset \<or> gap_inside blocks offset len)"
proof -
  have pos: "\<forall>b\<in>set blocks. 0 < size_b b" and asc: "ascending blocks"
    using assms(1) by (auto simp add: segments_def well_formed_def)
  have "(\<exists>a. offset < a \<and> a \<le> offset + len \<and> gap_at blocks a)
      = (gap_inside blocks offset len \<or> (0 < len \<and> gap_at blocks (offset + len)))"
  proof
    assume "\<exists>a. offset < a \<and> a \<le> offset + len \<and> gap_at blocks a"
    then obtain a where a: "offset < a" "a \<le> offset + len" "gap_at blocks a" by auto
    show "gap_inside blocks offset len \<or> (0 < len \<and> gap_at blocks (offset + len))"
    proof (cases "a = offset + len")
      case True
      then show ?thesis using a by simp
    next
      case False
      then have "offset < a \<and> a < offset + len \<and> gap_at blocks a" using a by simp
      then show ?thesis unfolding gap_inside_def by blast
    qed
  next
    assume "gap_inside blocks offset len \<or> (0 < len \<and> gap_at blocks (offset + len))"
    then show "\<exists>a. offset < a \<and> a \<le> offset + len \<and> gap_at blocks a"
    proof
      assume "gap_inside blocks offset len"
      then obtain a where "offset < a" "a < offset + len" "gap_at blocks a"
        unfolding gap_inside_def by auto
      then show ?thesis by (intro exI[of _ a]) simp
    next
      assume "0 < len \<and> gap_at blocks (offset + len)"
      then show ?thesis by (intro exI[of _ "offset + len"]) simp
    qed
  qed
  then show ?thesis
    using walk_first[OF pos asc assms(2), of upd offset ctx] assms(3)
    by (auto simp add: ends_before_gap_def)
qed

text \<open>
  The boundary case: a range that starts in a block, has no gap inside and ends exactly
  where a block ends before a gap always ends in \<^verbatim>\<open>return UNDEFINED\<close>.
\<close>

lemma walk_ends_before_gap:
  assumes "segments blocks" "0 \<le> len" "ends_before_gap blocks offset len"
  shows "foreach_memory_block upd blocks offset len ctx False = None"
proof -
  have pos: "\<forall>b\<in>set blocks. 0 < size_b b" and asc: "ascending blocks"
    using assms(1) by (auto simp add: segments_def well_formed_def)
  have m: "mapped blocks offset" and g: "gap_at blocks (offset + len)"
    using assms(3) by (simp_all add: ends_before_gap_def)
  have "len \<noteq> 0" using m g by (auto simp add: gap_at_def)
  then have "offset < offset + len \<and> offset + len \<le> offset + len \<and> gap_at blocks (offset + len)"
    using assms(2) g by simp
  then have "\<exists>a. offset < a \<and> a \<le> offset + len \<and> gap_at blocks a" by blast
  then show ?thesis
    using walk_first [OF pos asc assms(2), of upd offset ctx] by simp
qed

subsection \<open>The bytes a walk feeds to its engine\<close>

text \<open>A walk that starts in no block ends in \<^verbatim>\<open>return UNDEFINED\<close>, whatever the blocks.\<close>

lemma walk_start_unmapped:
  assumes "\<not> mapped blocks offset"
  shows "foreach_memory_block upd blocks offset len ctx False = None"
  using assms by (induction blocks) (auto simp add: mapped_Cons in_block_def)

text \<open>With \<open>len = 0\<close> and the offset in a block, the engine receives the empty run once.\<close>

lemma walk_empty_range_mapped:
  assumes "ascending blocks" "mapped blocks offset"
  shows "foreach_memory_block upd blocks offset 0 ctx False = Some (upd ctx [])"
  using assms
proof (induction blocks)
  case Nil
  then show ?case by simp
next
  case (Cons b bs)
  show ?case
  proof (cases "in_block b offset")
    case True
    then show ?thesis by (simp add: in_block_def Let_def min_def)
  next
    case False
    then have m: "mapped bs offset" using Cons.prems(2) by (simp add: mapped_Cons)
    then obtain c where c: "c \<in> set bs" "base c \<le> offset"
      by (auto simp add: mapped_def in_block_def)
    then have "base b + size_b b \<le> offset" using Cons.prems(1) by fastforce
    then show ?thesis using False m Cons.IH Cons.prems(1) by (simp add: in_block_def)
  qed
qed

text \<open>
  For an engine that satisfies the streaming law, a walk is the walk that collects the
  bytes, followed by one update.
\<close>

lemma walk_collects:
  assumes "\<And>c a b. upd (upd c a) b = upd c (a @ b)"
  shows "foreach_memory_block upd blocks offset len (upd c0 acc) past
       = map_option (upd c0) (foreach_memory_block (@) blocks offset len acc past)"
proof (induction blocks arbitrary: offset len acc past)
  case Nil
  then show ?case by simp
next
  case (Cons b bs)
  show ?case using Cons.IH assms by (simp add: Let_def)
qed

lemma walk_collects_first:
  assumes "\<And>c a b. upd (upd c a) b = upd c (a @ b)"
  shows "foreach_memory_block upd blocks offset len c0 False
       = map_option (upd c0) (foreach_memory_block (@) blocks offset len [] False)"
proof (induction blocks)
  case Nil
  then show ?case by simp
next
  case (Cons b bs)
  show ?case
    using Cons.IH walk_collects [of upd bs _ _ c0 _ True, OF assms]
    by (simp add: Let_def)
qed

text \<open>
  Over ascending blocks, the bytes a finished walk has collected are the bytes of the
  range that lie in blocks: \<open>range_bytes\<close>.
\<close>

lemma range_bytes_Nil [simp]: "range_bytes [] offset len = []"
  by (simp add: range_bytes_def)

lemma range_bytes_Cons:
  "range_bytes (b # bs) offset len = block_slice b offset len @ range_bytes bs offset len"
  by (simp add: range_bytes_def)

lemma block_slice_outside:
  assumes "offset + len \<le> base b \<or> base b + size_b b \<le> offset"
  shows "block_slice b offset len = []"
  using assms by (auto simp add: block_slice_def)

lemma range_bytes_beyond:
  assumes "\<forall>b\<in>set bs. offset + len \<le> base b"
  shows "range_bytes bs offset len = []"
  using assms by (induction bs) (simp_all add: range_bytes_Cons block_slice_outside)

lemma block_slice_in_block:
  assumes "base b \<le> offset" "offset < base b + size_b b" "0 \<le> len"
  shows "take (nat (min len (size_b b - (offset - base b)))) (drop (nat (offset - base b)) (data b))
       = block_slice b offset len"
proof -
  have "min (offset + len) (base b + size_b b) - max offset (base b)
      = min len (size_b b - (offset - base b))"
    using assms by (simp add: min_def max_def)
  moreover have "max offset (base b) - base b = offset - base b"
    using assms by (simp add: max_def)
  ultimately show ?thesis by (simp add: block_slice_def)
qed

lemma range_bytes_shift:
  assumes "\<forall>b\<in>set bs. e \<le> base b" "offset \<le> e"
  shows "range_bytes bs e (offset + len - e) = range_bytes bs offset len"
proof -
  have "block_slice b e (offset + len - e) = block_slice b offset len" if "b \<in> set bs" for b
  proof -
    have "e \<le> base b" using assms(1) that by simp
    then have "max e (base b) = base b" "max offset (base b) = base b"
      using assms(2) by (simp_all add: max_def)
    then show ?thesis by (simp add: block_slice_def)
  qed
  then show ?thesis by (simp add: range_bytes_def cong: map_cong)
qed

lemma walk_past_bytes:
  assumes "ascending bs" "\<forall>b\<in>set bs. offset \<le> base b" "0 \<le> len"
    and "foreach_memory_block (@) bs offset len acc True = Some r"
  shows "r = acc @ range_bytes bs offset len"
  using assms
proof (induction bs arbitrary: offset len acc)
  case Nil
  then show ?case by simp
next
  case (Cons b bs)
  have later: "\<forall>c\<in>set bs. base b + size_b b \<le> base c" using Cons.prems(1) by simp
  have lo: "offset \<le> base b" using Cons.prems(2) by simp
  show ?case
  proof (cases "in_block b offset")
    case False
    then show ?thesis using Cons.prems(4) by (auto simp add: in_block_def)
  next
    case True
    then have inb: "base b \<le> offset" "offset < base b + size_b b" by (simp_all add: in_block_def)
    define e where "e = base b + size_b b"
    define dl where "dl = min len (size_b b - (offset - base b))"
    have slice: "take (nat dl) (drop (nat (offset - base b)) (data b)) = block_slice b offset len"
      unfolding dl_def using inb Cons.prems(3) by (rule block_slice_in_block)
    show ?thesis
    proof (cases "offset + len < e")
      case short: True
      have "r = acc @ block_slice b offset len"
        using Cons.prems(4) inb short slice by (simp add: Let_def dl_def e_def)
      moreover have "range_bytes bs offset len = []"
        using later short by (intro range_bytes_beyond) (auto simp add: e_def)
      ultimately show ?thesis by (simp add: range_bytes_Cons)
    next
      case long: False
      have dleq: "dl = e - offset" using long by (simp add: dl_def e_def min_def)
      have A: "offset + dl = e" and B: "len - dl = offset + len - e" using dleq by simp_all
      have "foreach_memory_block (@) bs (offset + dl) (len - dl)
              (acc @ take (nat dl) (drop (nat (offset - base b)) (data b))) True = Some r"
        using Cons.prems(4) inb long by (simp add: Let_def dl_def e_def)
      then have step: "foreach_memory_block (@) bs e (offset + len - e)
              (acc @ block_slice b offset len) True = Some r"
        unfolding A B slice .
      have "r = (acc @ block_slice b offset len) @ range_bytes bs e (offset + len - e)"
        using Cons.prems(1) later long step by (intro Cons.IH) (simp_all add: e_def)
      moreover have "range_bytes bs e (offset + len - e) = range_bytes bs offset len"
        using later inb by (intro range_bytes_shift) (simp_all add: e_def)
      ultimately show ?thesis by (simp add: range_bytes_Cons)
    qed
  qed
qed

lemma walk_first_bytes:
  assumes "\<forall>b\<in>set bs. 0 \<le> size_b b" "ascending bs" "0 \<le> len"
    and "foreach_memory_block (@) bs offset len acc False = Some r"
  shows "r = acc @ range_bytes bs offset len"
  using assms
proof (induction bs arbitrary: acc)
  case Nil
  then show ?case by simp
next
  case (Cons b bs)
  have later: "\<forall>c\<in>set bs. base b + size_b b \<le> base c" using Cons.prems(2) by simp
  have pos: "0 \<le> size_b b" using Cons.prems(1) by simp
  show ?case
  proof (cases "in_block b offset")
    case False
    then have nb: "\<not> (base b \<le> offset \<and> offset < base b + size_b b)" by (simp add: in_block_def)
    have cont: "\<not> offset + len < base b + size_b b"
      and rec: "foreach_memory_block (@) bs offset len acc False = Some r"
      using Cons.prems(4) nb by (auto split: if_splits)
    have "base b + size_b b \<le> offset"
    proof (rule ccontr)
      assume "\<not> base b + size_b b \<le> offset"
      then have before: "offset < base b" using nb by simp
      have "\<not> mapped bs offset"
        using before later pos by (auto simp add: mapped_def in_block_def)
      then have "foreach_memory_block (@) bs offset len acc False = None"
        by (rule walk_start_unmapped)
      then show False using rec by simp
    qed
    then have "block_slice b offset len = []" by (simp add: block_slice_outside)
    moreover have "r = acc @ range_bytes bs offset len"
      using Cons.prems rec by (intro Cons.IH) simp_all
    ultimately show ?thesis by (simp add: range_bytes_Cons)
  next
    case True
    then have inb: "base b \<le> offset" "offset < base b + size_b b" by (simp_all add: in_block_def)
    define e where "e = base b + size_b b"
    define dl where "dl = min len (size_b b - (offset - base b))"
    have slice: "take (nat dl) (drop (nat (offset - base b)) (data b)) = block_slice b offset len"
      unfolding dl_def using inb Cons.prems(3) by (rule block_slice_in_block)
    show ?thesis
    proof (cases "offset + len < e")
      case short: True
      have "r = acc @ block_slice b offset len"
        using Cons.prems(4) inb short slice by (simp add: Let_def dl_def e_def)
      moreover have "range_bytes bs offset len = []"
        using later short by (intro range_bytes_beyond) (auto simp add: e_def)
      ultimately show ?thesis by (simp add: range_bytes_Cons)
    next
      case long: False
      have dleq: "dl = e - offset" using long by (simp add: dl_def e_def min_def)
      have A: "offset + dl = e" and B: "len - dl = offset + len - e" using dleq by simp_all
      have "foreach_memory_block (@) bs (offset + dl) (len - dl)
              (acc @ take (nat dl) (drop (nat (offset - base b)) (data b))) True = Some r"
        using Cons.prems(4) inb long by (simp add: Let_def dl_def e_def)
      then have step: "foreach_memory_block (@) bs e (offset + len - e)
              (acc @ block_slice b offset len) True = Some r"
        unfolding A B slice .
      have "r = (acc @ block_slice b offset len) @ range_bytes bs e (offset + len - e)"
        using Cons.prems(2) later long step by (intro walk_past_bytes) (simp_all add: e_def)
      moreover have "range_bytes bs e (offset + len - e) = range_bytes bs offset len"
        using later inb by (intro range_bytes_shift) (simp_all add: e_def)
      ultimately show ?thesis by (simp add: range_bytes_Cons)
    qed
  qed
qed

lemma resolve_range_bytes:
  assumes "segments blocks" "0 \<le> len" "resolve_range blocks offset len = Some r"
  shows "r = range_bytes blocks offset len"
proof -
  have "\<forall>b\<in>set blocks. 0 \<le> size_b b" "ascending blocks"
    using assms(1) by (auto simp add: segments_def well_formed_def)
  then show ?thesis
    using walk_first_bytes [of blocks len offset "[]" r] assms(2) assms(3)
    by (simp add: resolve_range_def)
qed

lemma walk_range_bytes:
  assumes "\<And>c a b. upd (upd c a) b = upd c (a @ b)" "segments blocks" "0 \<le> len"
  shows "foreach_memory_block upd blocks offset len c0 False = None
       \<or> foreach_memory_block upd blocks offset len c0 False
           = Some (upd c0 (range_bytes blocks offset len))"
proof (cases "resolve_range blocks offset len")
  case None
  then show ?thesis
    using walk_collects_first [of upd blocks offset len c0, OF assms(1)]
    by (simp add: resolve_range_def)
next
  case (Some r)
  then have "r = range_bytes blocks offset len"
    using assms(2) assms(3) by (intro resolve_range_bytes)
  then show ?thesis
    using Some walk_collects_first [of upd blocks offset len c0, OF assms(1)]
    by (simp add: resolve_range_def)
qed

subsection \<open>The checksum and the hexadecimal digits\<close>

lemma checksum_add_sum: "checksum_add c bs = c + of_nat (sum_list (map unat bs))"
  unfolding checksum_add_def by (induction bs arbitrary: c) (simp_all add: algebra_simps)

lemma uint_checksum_add:
  "uint (checksum_add 0 bs) = int (sum_list (map unat bs) mod 2 ^ 32)"
  by (simp add: checksum_add_sum uint_nat unat_of_nat)

lemma length_digest_to_ascii: "length (digest_to_ascii digest n) = 2 * n"
  by (induction n) (simp_all add: digest_to_ascii_def sprintf_02x_def)

lemma hex_digit_lowercase: "hex_digit n \<in> set ''0123456789abcdef''"
proof -
  have "n mod 16 < length ''0123456789abcdef''" by simp
  then show ?thesis unfolding hex_digit_def by (rule nth_mem)
qed

lemma digest_to_ascii_lowercase: "set (digest_to_ascii digest n) \<subseteq> set ''0123456789abcdef''"
  using hex_digit_lowercase by (auto simp add: digest_to_ascii_def sprintf_02x_def)

text \<open>
  \<^verbatim>\<open>digest_to_ascii\<close> loses nothing: its text read back gives the bytes of the digest
  buffer, in order.
\<close>

lemma hex_value_hex_digit: "hex_value (hex_digit n) = n mod 16"
proof -
  have "k < 16 \<Longrightarrow> hex_value (''0123456789abcdef'' ! k) = k" for k
    by (auto simp add: hex_value_def less_Suc_eq eval_nat_numeral)
  then show ?thesis by (simp add: hex_digit_def)
qed

lemma decode_hex_sprintf_02x: "decode_hex (sprintf_02x b @ rest) = b # decode_hex rest"
proof -
  have "unat b < 256" using unsigned_less [of b, where ?'a = nat] by simp
  then have "unat b div 16 mod 16 = unat b div 16" by simp
  then have "16 * hex_value (hex_digit (unat b div 16)) + hex_value (hex_digit (unat b mod 16))
               = unat b"
    by (simp add: hex_value_hex_digit)
  then show ?thesis by (simp add: sprintf_02x_def)
qed

lemma decode_hex_concat:
  "decode_hex (concat (map (\<lambda>i. sprintf_02x (digest i)) indices)) = map digest indices"
  by (induction indices) (simp_all add: decode_hex_sprintf_02x)

lemma decode_hex_digest_to_ascii:
  "decode_hex (digest_to_ascii digest n) = map digest [0..<n]"
  by (simp add: digest_to_ascii_def decode_hex_concat)

lemma digest_to_ascii_injective:
  assumes "digest_to_ascii digest n = digest_to_ascii digest' n"
  shows "map digest [0..<n] = map digest' [0..<n]"
  using assms decode_hex_digest_to_ascii [of digest n] decode_hex_digest_to_ascii [of digest' n]
  by simp

subsection \<open>The results in closed form, and the cache entries\<close>

lemma fst_data_digest:
  "fst (data_digest E n slot slot_update blocks frame stack cache offset len)
     = (if offset < 0 \<or> len < 0 then Inl ERROR_WRONG_ARGUMENTS
        else case blocks of
          [] \<Rightarrow> Inl NULL_MEM_BLOCK
        | mem_block # _ \<Rightarrow>
            if offset < base mem_block then Inl ERROR_WRONG_ARGUMENTS
            else if hit_h (slot cache) offset len
            then Inr (return_string (stack(frame := None)) (digest_h (slot cache)))
            else (case foreach_memory_block (Update E) blocks offset len (Init E) False of
                    None \<Rightarrow> Inr UNDEFINED
                  | Some ctx \<Rightarrow> Inr (Value (digest_to_ascii (Final E ctx) n))))"
proof (cases blocks)
  case Nil
  then show ?thesis by (simp add: data_digest_def)
next
  case (Cons mem_block rest)
  then show ?thesis
    by (cases "foreach_memory_block (Update E) (mem_block # rest) offset len (Init E) False")
      (simp_all add: data_digest_def hit_h_def Let_def del: foreach_memory_block.simps)
qed

lemma fst_data_checksum32:
  "fst (data_checksum32 blocks cache offset len)
     = (if offset < 0 \<or> len < 0 then Inl ERROR_WRONG_ARGUMENTS
        else case blocks of
          [] \<Rightarrow> Inl NULL_MEM_BLOCK
        | mem_block # _ \<Rightarrow>
            if offset < base mem_block then Inl ERROR_WRONG_ARGUMENTS
            else if hit_c (crc32 cache) offset len then Inr (Value (sum_c (crc32 cache)))
            else (case foreach_memory_block checksum_add blocks offset len 0 False of
                    None \<Rightarrow> Inr UNDEFINED
                  | Some checksum \<Rightarrow> Inr (Value (uint checksum))))"
proof (cases blocks)
  case Nil
  then show ?thesis by (simp add: data_checksum32_def)
next
  case (Cons mem_block rest)
  then show ?thesis
    by (cases "foreach_memory_block checksum_add (mem_block # rest) offset len 0 False")
      (simp_all add: data_checksum32_def hit_c_def Let_def del: foreach_memory_block.simps)
qed

text \<open>
  A negative offset or length is rejected before the list of blocks is looked at, also
  when the list is empty.
\<close>

lemma negative_arguments_rejected:
  assumes "offset < 0 \<or> len < 0"
  shows "data_digest E n slot slot_update blocks frame stack cache offset len
           = (Inl ERROR_WRONG_ARGUMENTS, cache)"
    and "data_checksum32 blocks cache offset len = (Inl ERROR_WRONG_ARGUMENTS, cache)"
  using assms by (simp_all add: data_digest_def data_checksum32_def)

lemma data_digest_keeps:
  assumes "\<And>f c. other (slot_update f c) = other c"
  shows "other (snd (data_digest E n slot slot_update blocks frame stack cache offset len))
       = other cache"
  using assms
  by (simp add: data_digest_def Let_def split: list.split option.split
      del: foreach_memory_block.simps)

lemma data_checksum32_keeps:
  assumes "\<And>f c. other (crc32_update f c) = other c"
  shows "other (snd (data_checksum32 blocks cache offset len)) = other cache"
  using assms
  by (simp add: data_checksum32_def Let_def split: list.split option.split
      del: foreach_memory_block.simps)

lemma data_digest_reads_own_entry:
  assumes "slot cache' = slot cache"
  shows "fst (data_digest E n slot slot_update blocks frame stack cache' offset len)
       = fst (data_digest E n slot slot_update blocks frame stack cache offset len)"
  by (simp only: fst_data_digest assms)

lemma data_checksum32_reads_own_entry:
  assumes "crc32 cache' = crc32 cache"
  shows "fst (data_checksum32 blocks cache' offset len)
       = fst (data_checksum32 blocks cache offset len)"
  by (simp only: fst_data_checksum32 assms)

text \<open>A range function writes no entry but its own, and reads no entry but its own.\<close>

lemma other_entries_untouched:
  "sha1 (snd (data_md5 md5e blocks frame stack cache offset len)) = sha1 cache"
  "sha256 (snd (data_md5 md5e blocks frame stack cache offset len)) = sha256 cache"
  "crc32 (snd (data_md5 md5e blocks frame stack cache offset len)) = crc32 cache"
  "md5 (snd (data_sha1 sha1e blocks frame stack cache offset len)) = md5 cache"
  "sha256 (snd (data_sha1 sha1e blocks frame stack cache offset len)) = sha256 cache"
  "crc32 (snd (data_sha1 sha1e blocks frame stack cache offset len)) = crc32 cache"
  "md5 (snd (data_sha256 sha256e blocks frame stack cache offset len)) = md5 cache"
  "sha1 (snd (data_sha256 sha256e blocks frame stack cache offset len)) = sha1 cache"
  "crc32 (snd (data_sha256 sha256e blocks frame stack cache offset len)) = crc32 cache"
  "md5 (snd (data_checksum32 blocks cache offset len)) = md5 cache"
  "sha1 (snd (data_checksum32 blocks cache offset len)) = sha1 cache"
  "sha256 (snd (data_checksum32 blocks cache offset len)) = sha256 cache"
  by (simp_all add: data_md5_def data_sha1_def data_sha256_def
      data_digest_keeps [where other = md5] data_digest_keeps [where other = sha1]
      data_digest_keeps [where other = sha256] data_digest_keeps [where other = crc32]
      data_checksum32_keeps [where other = md5] data_checksum32_keeps [where other = sha1]
      data_checksum32_keeps [where other = sha256])

lemma other_entries_unread:
  "fst (data_md5 md5e blocks frame stack (cache\<lparr>sha1 := x, sha256 := y, crc32 := z\<rparr>) offset len)
     = fst (data_md5 md5e blocks frame stack cache offset len)"
  "fst (data_sha1 sha1e blocks frame stack (cache\<lparr>md5 := x, sha256 := y, crc32 := z\<rparr>) offset len)
     = fst (data_sha1 sha1e blocks frame stack cache offset len)"
  "fst (data_sha256 sha256e blocks frame stack (cache\<lparr>md5 := x, sha1 := y, crc32 := z\<rparr>) offset len)
     = fst (data_sha256 sha256e blocks frame stack cache offset len)"
  "fst (data_checksum32 blocks (cache\<lparr>md5 := x, sha1 := y, sha256 := w\<rparr>) offset len)
     = fst (data_checksum32 blocks cache offset len)"
  unfolding data_md5_def data_sha1_def data_sha256_def
  by (rule data_digest_reads_own_entry data_checksum32_reads_own_entry, simp)+

text \<open>
  A call that returns undefined has stored its offset and its length in the entry, and
  nothing else.
\<close>

lemma undefined_call_stores_request:
  assumes "fst (data_checksum32 blocks cache offset len) = Inr UNDEFINED"
  shows "crc32 (snd (data_checksum32 blocks cache offset len))
       = (crc32 cache)\<lparr>offset_c := offset, length_c := len\<rparr>"
proof (cases "foreach_memory_block checksum_add blocks offset len 0 False")
  case None
  then show ?thesis
    using assms
    by (cases blocks)
      (simp_all add: data_checksum32_def Let_def split: if_splits del: foreach_memory_block.simps)
next
  case (Some c)
  then show ?thesis
    using assms
    by (cases blocks)
      (simp_all add: data_checksum32_def Let_def split: if_splits del: foreach_memory_block.simps)
qed

lemma undefined_digest_call_stores_request:
  assumes "fst (data_digest E n slot slot_update blocks frame stack cache offset len)
             = Inr UNDEFINED"
    and "\<And>f c. slot (slot_update f c) = f (slot c)"
  shows "slot (snd (data_digest E n slot slot_update blocks frame stack cache offset len))
       = (slot cache)\<lparr>offset_h := offset, length_h := len\<rparr>"
proof (cases "foreach_memory_block (Update E) blocks offset len (Init E) False")
  case None
  then show ?thesis
    using assms
    by (cases blocks)
      (simp_all add: data_digest_def Let_def return_string_def
        split: if_splits option.splits del: foreach_memory_block.simps)
next
  case (Some c)
  then show ?thesis
    using assms
    by (cases blocks)
      (simp_all add: data_digest_def Let_def return_string_def
        split: if_splits option.splits del: foreach_memory_block.simps)
qed

text \<open>
  A hash entry keeps the address of the array of the call that computed the digest.
  Once that call has returned, the same request finds the entry and reads at an address
  where no buffer is alive.
\<close>

lemma digest_repeat_reads_ended_buffer:
  assumes "\<not> hit_h (slot cache) offset len"
    and "fst (data_digest E n slot slot_update (mem_block # rest) frame stack cache offset len)
           = Inr (Value d)"
    and "\<And>f c. slot (slot_update f c) = f (slot c)"
  shows "fst (data_digest E n slot slot_update (mem_block # rest) frame' (stack(frame := None))
               (snd (data_digest E n slot slot_update (mem_block # rest) frame stack cache
                      offset len))
               offset len)
       = Inr Indeterminate"
proof (cases "foreach_memory_block (Update E) (mem_block # rest) offset len (Init E) False")
  case None
  then show ?thesis
    using assms
    by (simp add: data_digest_def hit_h_def Let_def split: if_splits
        del: foreach_memory_block.simps)
next
  case (Some c)
  then show ?thesis
    using assms
    by (simp add: data_digest_def hit_h_def Let_def return_string_def split: if_splits
        del: foreach_memory_block.simps; blast)
qed

text \<open>
  The checksum is cached by value: after a computed result the same request is answered
  with the same value, whatever the blocks then hold (only the base of the first block
  is read, for the test of the arguments).
\<close>

lemma checksum_repeat_from_cache:
  assumes "fst (data_checksum32 (mem_block # rest) cache offset len) = Inr (Value v)"
    and "base mem_block' = base mem_block"
  shows "data_checksum32 (mem_block' # rest')
           (snd (data_checksum32 (mem_block # rest) cache offset len)) offset len
       = (Inr (Value v), snd (data_checksum32 (mem_block # rest) cache offset len))"
proof (cases "foreach_memory_block checksum_add (mem_block # rest) offset len 0 False")
  case None
  then show ?thesis
    using assms
    by (simp add: data_checksum32_def Let_def split: if_splits del: foreach_memory_block.simps)
next
  case (Some c)
  then show ?thesis
    using assms
    by (simp add: data_checksum32_def Let_def split: if_splits del: foreach_memory_block.simps;
        blast)
qed

text \<open>
  Every defined result of a range function on a cache miss is the result of the
  literal-string form on the bytes of the range that lie in blocks.
\<close>

lemma range_digest_when_defined:
  assumes "streaming md5e" "streaming sha1e" "streaming sha256e"
    and "segments (mem_block # rest)" "0 \<le> offset" "0 \<le> len" "base mem_block \<le> offset"
    and "\<not> hit_h (md5 cache) offset len" "\<not> hit_h (sha1 cache) offset len"
    and "\<not> hit_h (sha256 cache) offset len" "\<not> hit_c (crc32 cache) offset len"
  shows "(fst (data_md5 md5e (mem_block # rest) frame stack cache offset len) = Inr UNDEFINED
          \<or> fst (data_md5 md5e (mem_block # rest) frame stack cache offset len)
              = string_md5 md5e (range_bytes (mem_block # rest) offset len))
       \<and> (fst (data_sha1 sha1e (mem_block # rest) frame stack cache offset len) = Inr UNDEFINED
          \<or> fst (data_sha1 sha1e (mem_block # rest) frame stack cache offset len)
              = string_sha1 sha1e (range_bytes (mem_block # rest) offset len))
       \<and> (fst (data_sha256 sha256e (mem_block # rest) frame stack cache offset len) = Inr UNDEFINED
          \<or> fst (data_sha256 sha256e (mem_block # rest) frame stack cache offset len)
              = string_sha256 sha256e (range_bytes (mem_block # rest) offset len))
       \<and> (fst (data_checksum32 (mem_block # rest) cache offset len) = Inr UNDEFINED
          \<or> fst (data_checksum32 (mem_block # rest) cache offset len)
              = string_checksum32 (range_bytes (mem_block # rest) offset len))"
proof -
  have h: "fst (data_digest E n slot slot_update (mem_block # rest) frame stack cache offset len)
             = Inr UNDEFINED
         \<or> fst (data_digest E n slot slot_update (mem_block # rest) frame stack cache offset len)
             = Inr (Value (digest_to_ascii
                 (Final E (Update E (Init E) (range_bytes (mem_block # rest) offset len))) n))"
    if "\<not> hit_h (slot cache) offset len" "streaming E"
    for slot and E :: "'e digest_engine" and n slot_update
  proof -
    have law: "Update E (Update E c a) b = Update E c (a @ b)" for c a b
      using that(2) by (simp add: streaming_def)
    show ?thesis
      using data_digest_walk [where E = E and n = n and slot = slot and slot_update = slot_update
          and mem_block = mem_block and rest = rest and frame = frame and stack = stack
          and cache = cache and offset = offset and len = len]
        assms(5) assms(6) assms(7) that(1)
        walk_range_bytes [of "Update E" "mem_block # rest" len offset "Init E",
          OF law assms(4) assms(6)]
      by (auto simp del: foreach_memory_block.simps)
  qed
  have claw: "checksum_add (checksum_add c a) b = checksum_add c (a @ b)" for c a b
    by (simp add: checksum_add_def)
  have c: "fst (data_checksum32 (mem_block # rest) cache offset len) = Inr UNDEFINED
         \<or> fst (data_checksum32 (mem_block # rest) cache offset len)
             = string_checksum32 (range_bytes (mem_block # rest) offset len)"
    using data_checksum32_walk [OF assms(5) assms(6) assms(7) assms(11), of rest]
      walk_range_bytes [of checksum_add "mem_block # rest" len offset 0,
        OF claw assms(4) assms(6)]
    by (auto simp add: string_checksum32_def simp del: foreach_memory_block.simps)
  show ?thesis
    using h [of md5 md5e MD5_DIGEST_LENGTH md5_update]
      h [of sha1 sha1e SHA_DIGEST_LENGTH sha1_update]
      h [of sha256 sha256e SHA256_DIGEST_LENGTH sha256_update] c assms
    by (simp add: data_md5_def data_sha1_def data_sha256_def string_md5_def string_sha1_def
        string_sha256_def)
qed

text \<open>
  On a cache miss with valid arguments, and unless the range ends exactly where a block
  ends before a gap, the result is undefined exactly when the start lies in no block or
  a gap lies strictly inside the range.
\<close>

lemma data_digest_undefined_iff:
  assumes "segments (mem_block # rest)" "0 \<le> offset" "0 \<le> len" "base mem_block \<le> offset"
    and "\<not> hit_h (slot cache) offset len"
    and "\<not> ends_before_gap (mem_block # rest) offset len"
  shows "(fst (data_digest E n slot slot_update (mem_block # rest) frame stack cache offset len)
            = Inr UNDEFINED)
       = (\<not> mapped (mem_block # rest) offset \<or> gap_inside (mem_block # rest) offset len)"
  using data_digest_walk [where E = E and n = n and slot = slot and slot_update = slot_update
      and mem_block = mem_block and rest = rest and frame = frame and stack = stack
      and cache = cache and offset = offset and len = len]
    assms(2) assms(3) assms(4) assms(5)
    walk_undefined [OF assms(1) assms(3) assms(6), of "Update E" "Init E"]
  by (simp split: option.splits del: foreach_memory_block.simps)

lemma data_checksum32_undefined_iff:
  assumes "segments (mem_block # rest)" "0 \<le> offset" "0 \<le> len" "base mem_block \<le> offset"
    and "\<not> hit_c (crc32 cache) offset len"
    and "\<not> ends_before_gap (mem_block # rest) offset len"
  shows "(fst (data_checksum32 (mem_block # rest) cache offset len) = Inr UNDEFINED)
       = (\<not> mapped (mem_block # rest) offset \<or> gap_inside (mem_block # rest) offset len)"
  using data_checksum32_walk [OF assms(2) assms(3) assms(4) assms(5), of rest]
    walk_undefined [OF assms(1) assms(3) assms(6), of checksum_add 0]
  by (simp split: option.splits del: foreach_memory_block.simps)

text \<open>
  A covered range: its bytes are as many as its length, and, unless the range ends
  exactly where a block ends before a gap, each range function returns on a cache miss
  what the literal-string form returns on these bytes.
\<close>

lemma length_block_slice:
  assumes "size_b b = int (length (data b))"
  shows "int (length (block_slice b offset len))
       = max 0 (min (offset + len) (base b + size_b b) - max offset (base b))"
  using assms by (auto simp add: block_slice_def min_def max_def)

lemma range_bytes_empty_range: "range_bytes bs offset 0 = []"
  by (induction bs) (auto simp add: range_bytes_Cons block_slice_def min_def max_def)

lemma length_range_bytes_covered:
  assumes "\<forall>b\<in>set bs. size_b b = int (length (data b))" "ascending bs" "0 \<le> len"
    and "covered bs offset len"
  shows "int (length (range_bytes bs offset len)) = len"
  using assms
proof (induction bs arbitrary: offset len)
  case Nil
  have "len = 0"
  proof (rule ccontr)
    assume "len \<noteq> 0"
    then have "offset \<le> offset \<and> offset < offset + len" using Nil.prems(3) by simp
    then have "mapped [] offset" using Nil.prems(4) unfolding covered_def by blast
    then show False by simp
  qed
  then show ?case by simp
next
  case (Cons b bs)
  have sz: "size_b b = int (length (data b))" using Cons.prems(1) by simp
  have nonneg: "0 \<le> size_b b" using sz by simp
  have later: "\<forall>c\<in>set bs. base b + size_b b \<le> base c" using Cons.prems(2) by simp
  have rest_ok: "\<forall>b\<in>set bs. size_b b = int (length (data b))" "ascending bs"
    using Cons.prems(1) Cons.prems(2) by simp_all
  define e where "e = base b + size_b b"
  show ?case
  proof (cases "len = 0")
    case True
    then show ?thesis by (simp add: range_bytes_empty_range)
  next
    case False
    then have pos: "0 < len" using Cons.prems(3) by simp
    show ?thesis
    proof (cases "e \<le> offset")
      case True
      have "covered bs offset len"
        unfolding covered_def
      proof (intro allI impI)
        fix a assume a: "offset \<le> a \<and> a < offset + len"
        then have "mapped (b # bs) a" using Cons.prems(4) unfolding covered_def by blast
        moreover have "\<not> in_block b a" using a True by (simp add: in_block_def e_def)
        ultimately show "mapped bs a" by (simp add: mapped_Cons)
      qed
      then have "int (length (range_bytes bs offset len)) = len"
        using rest_ok Cons.prems(3) by (intro Cons.IH)
      moreover have "block_slice b offset len = []"
        using True by (simp add: block_slice_outside e_def)
      ultimately show ?thesis by (simp add: range_bytes_Cons)
    next
      case False
      then have below: "offset < e" by simp
      have "mapped (b # bs) offset" using Cons.prems(4) pos unfolding covered_def by simp
      then have lo: "base b \<le> offset"
        using later nonneg by (auto simp add: mapped_Cons mapped_def in_block_def)
      show ?thesis
      proof (cases "offset + len \<le> e")
        case True
        have "int (length (block_slice b offset len)) = len"
          using length_block_slice [OF sz, of offset len] True lo pos
          by (simp add: e_def min_def max_def)
        moreover have "range_bytes bs offset len = []"
          using later True by (intro range_bytes_beyond) (auto simp add: e_def)
        ultimately show ?thesis by (simp add: range_bytes_Cons)
      next
        case False
        have l1: "int (length (block_slice b offset len)) = e - offset"
          using length_block_slice [OF sz, of offset len] False lo below
          by (simp add: e_def min_def max_def)
        have "covered bs e (offset + len - e)"
          unfolding covered_def
        proof (intro allI impI)
          fix a assume a: "e \<le> a \<and> a < e + (offset + len - e)"
          then have "offset \<le> a \<and> a < offset + len" using below by simp
          then have "mapped (b # bs) a" using Cons.prems(4) unfolding covered_def by blast
          moreover have "\<not> in_block b a" using a by (simp add: in_block_def e_def)
          ultimately show "mapped bs a" by (simp add: mapped_Cons)
        qed
        then have "int (length (range_bytes bs e (offset + len - e))) = offset + len - e"
          using rest_ok False by (intro Cons.IH) simp_all
        moreover have "range_bytes bs e (offset + len - e) = range_bytes bs offset len"
          using later below by (intro range_bytes_shift) (simp_all add: e_def)
        ultimately show ?thesis using l1 by (simp add: range_bytes_Cons)
      qed
    qed
  qed
qed

lemma covered_no_gap_inside:
  assumes "covered blocks offset len"
  shows "\<not> gap_inside blocks offset len"
  using assms by (auto simp add: covered_def gap_inside_def gap_at_def)

lemma covered_range_digest:
  assumes "streaming md5e" "streaming sha1e" "streaming sha256e"
    and "segments (mem_block # rest)" "0 \<le> offset" "0 \<le> len" "base mem_block \<le> offset"
    and "\<not> hit_h (md5 cache) offset len" "\<not> hit_h (sha1 cache) offset len"
    and "\<not> hit_h (sha256 cache) offset len" "\<not> hit_c (crc32 cache) offset len"
    and "mapped (mem_block # rest) offset" "covered (mem_block # rest) offset len"
    and "\<not> gap_at (mem_block # rest) (offset + len)"
  shows "fst (data_md5 md5e (mem_block # rest) frame stack cache offset len)
           = string_md5 md5e (range_bytes (mem_block # rest) offset len)"
    and "fst (data_sha1 sha1e (mem_block # rest) frame stack cache offset len)
           = string_sha1 sha1e (range_bytes (mem_block # rest) offset len)"
    and "fst (data_sha256 sha256e (mem_block # rest) frame stack cache offset len)
           = string_sha256 sha256e (range_bytes (mem_block # rest) offset len)"
    and "fst (data_checksum32 (mem_block # rest) cache offset len)
           = string_checksum32 (range_bytes (mem_block # rest) offset len)"
proof -
  have e: "\<not> ends_before_gap (mem_block # rest) offset len"
    using assms(14) by (simp add: ends_before_gap_def)
  have g: "\<not> gap_inside (mem_block # rest) offset len"
    using assms(13) by (rule covered_no_gap_inside)
  have d: "fst (data_digest E n slot slot_update (mem_block # rest) frame stack cache offset len)
             \<noteq> Inr UNDEFINED"
    if "\<not> hit_h (slot cache) offset len" for slot and E :: "'e digest_engine" and n slot_update
    using data_digest_undefined_iff [where E = E and n = n and slot = slot
        and slot_update = slot_update and mem_block = mem_block and rest = rest
        and frame = frame and stack = stack and cache = cache and offset = offset and len = len]
      assms(4) assms(5) assms(6) assms(7) that e g assms(12)
    by simp
  have c: "fst (data_checksum32 (mem_block # rest) cache offset len) \<noteq> Inr UNDEFINED"
    using data_checksum32_undefined_iff [OF assms(4) assms(5) assms(6) assms(7) assms(11) e]
      g assms(12)
    by simp
  note r = range_digest_when_defined [OF assms(1) assms(2) assms(3) assms(4) assms(5) assms(6)
      assms(7) assms(8) assms(9) assms(10) assms(11), of frame stack]
  show "fst (data_md5 md5e (mem_block # rest) frame stack cache offset len)
           = string_md5 md5e (range_bytes (mem_block # rest) offset len)"
    using r d [of md5 md5e MD5_DIGEST_LENGTH md5_update] assms(8) by (simp add: data_md5_def)
  show "fst (data_sha1 sha1e (mem_block # rest) frame stack cache offset len)
           = string_sha1 sha1e (range_bytes (mem_block # rest) offset len)"
    using r d [of sha1 sha1e SHA_DIGEST_LENGTH sha1_update] assms(9) by (simp add: data_sha1_def)
  show "fst (data_sha256 sha256e (mem_block # rest) frame stack cache offset len)
           = string_sha256 sha256e (range_bytes (mem_block # rest) offset len)"
    using r d [of sha256 sha256e SHA256_DIGEST_LENGTH sha256_update] assms(10)
    by (simp add: data_sha256_def)
  show "fst (data_checksum32 (mem_block # rest) cache offset len)
           = string_checksum32 (range_bytes (mem_block # rest) offset len)"
    using r c by simp
qed

section \<open>The claims\<close>

subsection \<open>C1: a covered range yields the digest of its bytes\<close>

text \<open>
  Claim C1. For a request with valid arguments whose bytes are all backed by blocks,
  inside one block or across adjacent blocks, every range function returns the digest of
  exactly those bytes, the value the literal-string form returns on them.

  The code does not do so for a range that ends exactly where a block ends when the next
  block lies further up. After the last byte has been taken, the test
  \<^verbatim>\<open>block->base + block->size > offset + length\<close> compares two equal numbers and does
  not leave the loop; the next block does not contain the offset, \<^verbatim>\<open>past_first_block\<close>
  is set, and the function returns \<^verbatim>\<open>UNDEFINED\<close>. The theorem evaluates the four
  functions on the blocks \<open>abcd\<close> at 0 and \<open>efgh\<close> at 8 for the request \<open>(0, 4)\<close>, which
  lies inside the first block: all four are undefined, where the claim promises the
  digest of \<open>abcd\<close> (for the checksum, 394). The same request is answered with 394 when
  the first block is the only one, or when the second block is adjacent.
\<close>

theorem range_ending_before_gap_is_undefined:
  "in_block (apart_blocks ! 0) 0 \<and> in_block (apart_blocks ! 0) (0 + 4 - 1)
   \<and> fst (data_md5 md5e apart_blocks frame stack zero_cache 0 4) = Inr UNDEFINED
   \<and> fst (data_sha1 sha1e apart_blocks frame stack zero_cache 0 4) = Inr UNDEFINED
   \<and> fst (data_sha256 sha256e apart_blocks frame stack zero_cache 0 4) = Inr UNDEFINED
   \<and> fst (data_checksum32 apart_blocks zero_cache 0 4) = Inr UNDEFINED
   \<and> string_checksum32 abcd = Inr (Value 394)
   \<and> fst (data_checksum32 one_block zero_cache 0 4) = Inr (Value 394)
   \<and> fst (data_checksum32 adjacent_blocks zero_cache 0 4) = Inr (Value 394)"
  by (simp add: sample_defs in_block_def data_md5_def data_sha1_def data_sha256_def
      data_digest_def data_checksum32_def string_checksum32_def checksum_add_def)

subsection \<open>C2: when the result is undefined\<close>

text \<open>
  Claim C2. With valid arguments, the result of a range function is undefined exactly
  when the requested range is not fully covered by contiguous block data.

  As stated the claim fails: a range that runs past the end of the last block is not
  covered, and the result is defined. The loop ends when the blocks are exhausted, and
  the function finalises the digest of the bytes read so far; nothing in any of the four
  functions tests that \<^verbatim>\<open>length\<close> has been used up. On the adjacent blocks \<open>abcd\<close>,
  \<open>efgh\<close> the request \<open>(0, 20)\<close> yields the checksum of the eight bytes present.

  The claim spells out "not covered" as: no block contains any requested offset, or a
  later block does not contain the advanced offset. The first of these is not the
  code's test either: what counts is the start offset. On the blocks \<open>abcd\<close> at 0 and
  \<open>efgh\<close> at 8 the request \<open>(5, 6)\<close> starts in the gap and reaches the addresses 8 to 10
  of the second block; no block has contributed, and the result is undefined.
\<close>

theorem range_past_last_block_is_defined:
  "\<not> covered adjacent_blocks 0 20
   \<and> fst (data_checksum32 adjacent_blocks zero_cache 0 20) = Inr (Value 804)
   \<and> in_block (apart_blocks ! 1) 8
   \<and> fst (data_checksum32 apart_blocks zero_cache 5 6) = Inr UNDEFINED"
proof -
  have "\<not> mapped adjacent_blocks 10"
    by (simp add: mapped_def in_block_def sample_defs)
  then have "\<not> covered adjacent_blocks 0 20"
    unfolding covered_def by (intro notI) (drule spec[of _ 10], simp)
  moreover have "fst (data_checksum32 adjacent_blocks zero_cache 0 20) = Inr (Value 804)"
    by (simp add: sample_defs data_checksum32_def checksum_add_def)
  moreover have "in_block (apart_blocks ! 1) 8"
    by (simp add: in_block_def sample_defs)
  moreover have "fst (data_checksum32 apart_blocks zero_cache 5 6) = Inr UNDEFINED"
    by (simp add: sample_defs data_checksum32_def checksum_add_def)
  ultimately show ?thesis by simp
qed

text \<open>
  Claim C2, amended. Over well-formed ascending blocks, with valid arguments and on a
  cache miss, and leaving aside a range that ends exactly where a block ends before a gap
  (the case of C1, \<open>ends_before_gap\<close>): the result of each range function is undefined
  exactly when the start offset lies in no block, or a gap between blocks lies strictly
  inside the range. In particular a range cut short only by the end of the last block is
  not undefined.
\<close>

theorem undefined_exactly_when_start_unmapped_or_gap_inside:
  assumes "segments (mem_block # rest)"
    and "0 \<le> offset" "0 \<le> len" "base mem_block \<le> offset" "in_range offset len"
    and "\<not> hit_h (md5 cache) offset len" "\<not> hit_h (sha1 cache) offset len"
    and "\<not> hit_h (sha256 cache) offset len" "\<not> hit_c (crc32 cache) offset len"
    and "\<not> ends_before_gap (mem_block # rest) offset len"
  shows "(fst (data_md5 md5e (mem_block # rest) frame stack cache offset len) = Inr UNDEFINED)
           = (\<not> mapped (mem_block # rest) offset \<or> gap_inside (mem_block # rest) offset len)
       \<and> (fst (data_sha1 sha1e (mem_block # rest) frame stack cache offset len) = Inr UNDEFINED)
           = (\<not> mapped (mem_block # rest) offset \<or> gap_inside (mem_block # rest) offset len)
       \<and> (fst (data_sha256 sha256e (mem_block # rest) frame stack cache offset len) = Inr UNDEFINED)
           = (\<not> mapped (mem_block # rest) offset \<or> gap_inside (mem_block # rest) offset len)
       \<and> (fst (data_checksum32 (mem_block # rest) cache offset len) = Inr UNDEFINED)
           = (\<not> mapped (mem_block # rest) offset \<or> gap_inside (mem_block # rest) offset len)"
proof -
  have h: "(fst (data_digest E n slot slot_update (mem_block # rest) frame stack cache offset len)
              = Inr UNDEFINED)
         = (\<not> mapped (mem_block # rest) offset \<or> gap_inside (mem_block # rest) offset len)"
    if "\<not> hit_h (slot cache) offset len"
    for slot and E :: "'e digest_engine" and n slot_update
    using data_digest_undefined_iff [where E = E and n = n and slot = slot
        and slot_update = slot_update and mem_block = mem_block and rest = rest
        and frame = frame and stack = stack and cache = cache and offset = offset and len = len]
      assms(1) assms(2) assms(3) assms(4) that assms(10)
    by simp
  show ?thesis
    using h [of md5 md5e MD5_DIGEST_LENGTH md5_update]
      h [of sha1 sha1e SHA_DIGEST_LENGTH sha1_update]
      h [of sha256 sha256e SHA256_DIGEST_LENGTH sha256_update]
      data_checksum32_undefined_iff [OF assms(1) assms(2) assms(3) assms(4) assms(9) assms(10)]
      assms(6) assms(7) assms(8)
    unfolding data_md5_def data_sha1_def data_sha256_def by blast
qed

text \<open>
  The theorem at two requests: \<open>(0, 20)\<close> on the adjacent blocks runs past the last block
  and is defined; \<open>(2, 8)\<close> on the blocks with the gap crosses the addresses 4 to 7 and is
  undefined.
\<close>

theorem undefined_exactly_when_start_unmapped_or_gap_inside_witness:
  "segments adjacent_blocks \<and> in_range 0 20 \<and> \<not> ends_before_gap adjacent_blocks 0 20
   \<and> mapped adjacent_blocks 0 \<and> \<not> gap_inside adjacent_blocks 0 20
   \<and> fst (data_checksum32 adjacent_blocks zero_cache 0 20) \<noteq> Inr UNDEFINED
   \<and> segments apart_blocks \<and> in_range 2 8 \<and> \<not> ends_before_gap apart_blocks 2 8
   \<and> gap_inside apart_blocks 2 8
   \<and> fst (data_checksum32 apart_blocks zero_cache 2 8) = Inr UNDEFINED"
proof -
  have s1: "segments adjacent_blocks" and s2: "segments apart_blocks"
    by (simp_all add: segments_def well_formed_def sample_defs)
  have r1: "in_range 0 20" and r2: "in_range 2 8" by (simp_all add: in_range_def)
  have m1: "mapped adjacent_blocks 0"
    by (simp add: mapped_def in_block_def sample_defs)
  have g1: "\<not> gap_inside adjacent_blocks 0 20"
    by (auto simp add: gap_inside_def gap_at_def mapped_def in_block_def sample_defs)
  have e1: "\<not> ends_before_gap adjacent_blocks 0 20"
    by (simp add: ends_before_gap_def gap_at_def sample_defs)
  have "gap_at apart_blocks 5"
    by (simp add: gap_at_def mapped_def in_block_def sample_defs)
  then have g2: "gap_inside apart_blocks 2 8"
    unfolding gap_inside_def by (intro exI[of _ 5]) simp
  then have e2: "\<not> ends_before_gap apart_blocks 2 8"
    by (simp add: ends_before_gap_def)
  have miss: "\<not> hit_h (md5 zero_cache) o1 l1" "\<not> hit_h (sha1 zero_cache) o1 l1"
    "\<not> hit_h (sha256 zero_cache) o1 l1" "\<not> hit_c (crc32 zero_cache) o1 l1" for o1 l1
    by (simp_all add: hit_h_def hit_c_def sample_defs)
  have "fst (data_checksum32 adjacent_blocks zero_cache 0 20) \<noteq> Inr UNDEFINED"
    using undefined_exactly_when_start_unmapped_or_gap_inside
        [where mem_block = "\<lparr>data = abcd, size_b = 4, base = 0\<rparr>"
        and rest = "[\<lparr>data = efgh, size_b = 4, base = 4\<rparr>]"
        and offset = 0 and len = 20 and cache = zero_cache,
        THEN conjunct2, THEN conjunct2, THEN conjunct2]
      s1 r1 m1 g1 e1 miss
    by (simp add: adjacent_blocks_def)
  moreover have "fst (data_checksum32 apart_blocks zero_cache 2 8) = Inr UNDEFINED"
    using undefined_exactly_when_start_unmapped_or_gap_inside
        [where mem_block = "\<lparr>data = abcd, size_b = 4, base = 0\<rparr>"
        and rest = "[\<lparr>data = efgh, size_b = 4, base = 8\<rparr>]"
        and offset = 2 and len = 8 and cache = zero_cache,
        THEN conjunct2, THEN conjunct2, THEN conjunct2]
      s2 r2 g2 e2 miss
    by (simp add: apart_blocks_def)
  ultimately show ?thesis using s1 s2 r1 r2 m1 g1 e1 g2 e2 by simp
qed

subsection \<open>C3: an undefined result and the cache\<close>

text \<open>
  Claim C3. A range call that returns undefined leaves the cache exactly as it was: no
  field of any entry is modified, and a later identical request sees no trace of it.

  The code stores \<^verbatim>\<open>offset\<close> and \<^verbatim>\<open>length\<close> in the entry before the loop, so both
  \<^verbatim>\<open>return UNDEFINED\<close> statements are reached with the entry already rewritten, while
  \<^verbatim>\<open>isSet\<close> and the stored result are those of an earlier call. The theorem evaluates,
  on the one block \<open>abcd\<close> at 0: \<^verbatim>\<open>md5(10, 2)\<close> on the zeroed cache is undefined and
  changes the entry; and after \<^verbatim>\<open>checksum32(0, 2)\<close> has stored 195, \<^verbatim>\<open>checksum32(10, 2)\<close>
  is undefined, leaves the entry set for \<open>(10, 2)\<close> with the sum 195, and the identical
  request \<^verbatim>\<open>checksum32(10, 2)\<close> made again returns 195.
\<close>

theorem undefined_result_rewrites_cache_entry:
  "fst (data_md5 md5e one_block frame stack zero_cache 10 2) = Inr UNDEFINED
   \<and> md5 (snd (data_md5 md5e one_block frame stack zero_cache 10 2))
       = \<lparr>isSet_h = False, offset_h = 10, length_h = 2, digest_h = 0\<rparr>
   \<and> md5 (snd (data_md5 md5e one_block frame stack zero_cache 10 2)) \<noteq> md5 zero_cache
   \<and> fst (data_checksum32 one_block zero_cache 0 2) = Inr (Value 195)
   \<and> fst (data_checksum32 one_block (snd (data_checksum32 one_block zero_cache 0 2)) 10 2)
       = Inr UNDEFINED
   \<and> crc32 (snd (data_checksum32 one_block (snd (data_checksum32 one_block zero_cache 0 2)) 10 2))
       = \<lparr>isSet_c = True, offset_c = 10, length_c = 2, sum_c = 195\<rparr>
   \<and> fst (data_checksum32 one_block
          (snd (data_checksum32 one_block (snd (data_checksum32 one_block zero_cache 0 2)) 10 2))
          10 2) = Inr (Value 195)"
  by (simp add: sample_defs data_md5_def data_digest_def data_checksum32_def checksum_add_def)

subsection \<open>C4: invalid arguments\<close>

text \<open>
  Claim C4. If the offset is negative, or the length is negative, or the offset is below
  the base of the first block, every range function fails with the invalid-argument
  error, which is not the undefined result, and nothing is computed: the cache is
  returned unchanged and the result does not depend on the contents of any block.
\<close>

theorem invalid_arguments_rejected:
  assumes "offset < 0 \<or> len < 0 \<or> offset < base mem_block"
  shows "data_md5 md5e (mem_block # rest) frame stack cache offset len
           = (Inl ERROR_WRONG_ARGUMENTS, cache)
       \<and> data_sha1 sha1e (mem_block # rest) frame stack cache offset len
           = (Inl ERROR_WRONG_ARGUMENTS, cache)
       \<and> data_sha256 sha256e (mem_block # rest) frame stack cache offset len
           = (Inl ERROR_WRONG_ARGUMENTS, cache)
       \<and> data_checksum32 (mem_block # rest) cache offset len
           = (Inl ERROR_WRONG_ARGUMENTS, cache)
       \<and> (Inl ERROR_WRONG_ARGUMENTS :: error + int retval) \<noteq> Inr UNDEFINED"
proof -
  have d: "data_digest E n slot slot_update (mem_block # rest) frame stack cache offset len
         = (Inl ERROR_WRONG_ARGUMENTS, cache)"
    for slot slot_update and E :: "'e digest_engine" and n
    using assms by (cases "offset < 0 \<or> len < 0") (simp_all add: data_digest_def)
  have c: "data_checksum32 (mem_block # rest) cache offset len
         = (Inl ERROR_WRONG_ARGUMENTS, cache)"
    using assms by (cases "offset < 0 \<or> len < 0") (simp_all add: data_checksum32_def)
  show ?thesis
    by (simp add: data_md5_def data_sha1_def data_sha256_def d c)
qed

text \<open>
  The three kinds of invalid argument, on a cache whose checksum entry is set; the last
  line shows a valid request on the same cache, which is answered.
\<close>

theorem invalid_arguments_rejected_witness:
  "data_checksum32 one_block reused_block (- 1) 2 = (Inl ERROR_WRONG_ARGUMENTS, reused_block)
   \<and> data_checksum32 one_block reused_block 0 (- 4) = (Inl ERROR_WRONG_ARGUMENTS, reused_block)
   \<and> data_checksum32 [\<lparr>data = efgh, size_b = 4, base = 8\<rparr>] reused_block 0 4
       = (Inl ERROR_WRONG_ARGUMENTS, reused_block)
   \<and> data_checksum32 one_block reused_block 0 4 = (Inr (Value 7), reused_block)"
proof -
  have a: "data_checksum32 one_block reused_block (- 1) 2
         = (Inl ERROR_WRONG_ARGUMENTS, reused_block)"
    using invalid_arguments_rejected
        [where offset = "- 1" and len = 2
        and mem_block = "\<lparr>data = abcd, size_b = 4, base = 0\<rparr>"
        and rest = "[]" and cache = reused_block,
        THEN conjunct2, THEN conjunct2, THEN conjunct2, THEN conjunct1]
    by (simp add: one_block_def)
  have b: "data_checksum32 one_block reused_block 0 (- 4)
         = (Inl ERROR_WRONG_ARGUMENTS, reused_block)"
    using invalid_arguments_rejected
        [where offset = 0 and len = "- 4"
        and mem_block = "\<lparr>data = abcd, size_b = 4, base = 0\<rparr>"
        and rest = "[]" and cache = reused_block,
        THEN conjunct2, THEN conjunct2, THEN conjunct2, THEN conjunct1]
    by (simp add: one_block_def)
  have c: "data_checksum32 [\<lparr>data = efgh, size_b = 4, base = 8\<rparr>] reused_block 0 4
       = (Inl ERROR_WRONG_ARGUMENTS, reused_block)"
    using invalid_arguments_rejected
        [where offset = 0 and len = 4
        and mem_block = "\<lparr>data = efgh, size_b = 4, base = 8\<rparr>"
        and rest = "[]" and cache = reused_block,
        THEN conjunct2, THEN conjunct2, THEN conjunct2, THEN conjunct1]
    by simp
  have d: "data_checksum32 one_block reused_block 0 4 = (Inr (Value 7), reused_block)"
    by (simp add: sample_defs data_checksum32_def)
  show ?thesis using a b c d by simp
qed

subsection \<open>C5: the same request twice\<close>

text \<open>
  Claim C5. After a first successful computation, the identical request made again in the
  same session returns a result bit-identical to the first, from the cache.

  For the three hash functions the code does not keep the digest: it stores in the entry
  the address of \<^verbatim>\<open>digest_ascii\<close>, an automatic array of the call, which ends when the
  call returns. The second call passes the cache test and hands \<^verbatim>\<open>return_string\<close> that
  address, at which no buffer of the first call is alive any more. The theorem evaluates
  \<^verbatim>\<open>md5(0, 4)\<close> twice on the one block \<open>abcd\<close>: the first call returns the digest of
  \<open>abcd\<close> and leaves the entry pointing at its own array; the second call, for any
  contents of the callers' buffers, returns \<open>Indeterminate\<close>. The same holds for SHA-1
  and SHA-256. \<^verbatim>\<open>data_checksum32\<close> stores the sum itself and returns 394 both times.
\<close>

theorem repeated_request_reads_ended_buffer:
  "fst (data_md5 md5e one_block frame stack zero_cache 0 4) = string_md5 md5e abcd
   \<and> md5 (snd (data_md5 md5e one_block frame stack zero_cache 0 4))
       = \<lparr>isSet_h = True, offset_h = 0, length_h = 4, digest_h = frame\<rparr>
   \<and> fst (data_md5 md5e one_block frame' (stack(frame := None))
          (snd (data_md5 md5e one_block frame stack zero_cache 0 4)) 0 4) = Inr Indeterminate
   \<and> fst (data_sha1 sha1e one_block frame' (stack(frame := None))
          (snd (data_sha1 sha1e one_block frame stack zero_cache 0 4)) 0 4) = Inr Indeterminate
   \<and> fst (data_sha256 sha256e one_block frame' (stack(frame := None))
          (snd (data_sha256 sha256e one_block frame stack zero_cache 0 4)) 0 4) = Inr Indeterminate
   \<and> fst (data_checksum32 one_block zero_cache 0 4) = Inr (Value 394)
   \<and> fst (data_checksum32 one_block (snd (data_checksum32 one_block zero_cache 0 4)) 0 4)
       = Inr (Value 394)"
  by (simp add: sample_defs data_md5_def data_sha1_def data_sha256_def data_digest_def
      data_checksum32_def string_md5_def checksum_add_def return_string_def)

subsection \<open>C6: what a cache hit returns\<close>

text \<open>
  Claim C6. A cached value is returned only for the exact request that produced it; a hit
  needs the entry set with the stored offset and length equal to the request, and every
  algorithm has an entry of its own.

  The test of the entry is the exact comparison, and the entries are independent
  (\<open>other_entries_untouched\<close>, \<open>other_entries_unread\<close>). But the stored offset and length
  need not be those of the request that produced the stored value: a call that returns
  undefined has already overwritten them (see C3). The theorem evaluates, on the blocks
  \<open>abcd\<close> at 0 and \<open>efgh\<close> at 8: \<^verbatim>\<open>checksum32(0, 3)\<close> computes 294, the sum of \<open>abc\<close>;
  \<^verbatim>\<open>checksum32(2, 8)\<close>, a range that overlaps the first and crosses the gap, is
  undefined; the same \<^verbatim>\<open>checksum32(2, 8)\<close> made again is a cache hit and returns 294,
  the value that the request \<open>(0, 3)\<close> produced.
\<close>

theorem stale_entry_answers_other_request:
  "fst (data_checksum32 apart_blocks zero_cache 0 3) = Inr (Value 294)
   \<and> string_checksum32 [97, 98, 99] = Inr (Value 294)
   \<and> fst (data_checksum32 apart_blocks (snd (data_checksum32 apart_blocks zero_cache 0 3)) 2 8)
       = Inr UNDEFINED
   \<and> hit_c (crc32 (snd (data_checksum32 apart_blocks
                           (snd (data_checksum32 apart_blocks zero_cache 0 3)) 2 8))) 2 8
   \<and> fst (data_checksum32 apart_blocks
          (snd (data_checksum32 apart_blocks
                 (snd (data_checksum32 apart_blocks zero_cache 0 3)) 2 8))
          2 8) = Inr (Value 294)"
  by (simp add: sample_defs data_checksum32_def string_checksum32_def checksum_add_def
      hit_c_def)

subsection \<open>C7: the checksum wraps modulo \<open>2^32\<close>\<close>

text \<open>
  Claim C7. Both forms of \<^verbatim>\<open>checksum32\<close> compute the sum of the byte values of their
  input in an unsigned 32-bit accumulator: for an input whose byte sum is \<open>S\<close> the value
  returned is \<open>S mod 2^32\<close>. For the literal form the input is the string; for the range
  form, on a cache miss over well-formed ascending blocks, it is the bytes of the range
  that lie in blocks, whenever the result is not undefined.
\<close>

theorem checksum32_is_byte_sum_mod_2_32:
  assumes "segments (mem_block # rest)"
    and "0 \<le> offset" "0 \<le> len" "base mem_block \<le> offset" "in_range offset len"
    and "\<not> hit_c (crc32 cache) offset len"
  shows "string_checksum32 s = Inr (Value (int (sum_list (map unat s) mod 2 ^ 32)))
       \<and> (fst (data_checksum32 (mem_block # rest) cache offset len) = Inr UNDEFINED
          \<or> fst (data_checksum32 (mem_block # rest) cache offset len)
              = Inr (Value (int (sum_list (map unat (range_bytes (mem_block # rest) offset len))
                                   mod 2 ^ 32))))"
proof -
  have law: "checksum_add (checksum_add c a) b = checksum_add c (a @ b)" for c a b
    by (simp add: checksum_add_def)
  have "fst (data_checksum32 (mem_block # rest) cache offset len) = Inr UNDEFINED
         \<or> fst (data_checksum32 (mem_block # rest) cache offset len)
             = Inr (Value (uint (checksum_add 0 (range_bytes (mem_block # rest) offset len))))"
    using data_checksum32_walk [OF assms(2) assms(3) assms(4) assms(6), of rest]
      walk_range_bytes [of checksum_add "mem_block # rest" len offset 0,
        OF law assms(1) assms(3)]
    by (auto simp del: foreach_memory_block.simps)
  then show ?thesis by (simp add: string_checksum32_def uint_checksum_add)
qed

text \<open>
  The theorem on 16843010 bytes \<^verbatim>\<open>0xFF\<close>, whose sum \<open>2^32 + 254\<close> does not fit in 32
  bits: as a literal string and as the range \<open>(0, 16843010)\<close> of one block, the value is
  254.
\<close>

theorem checksum32_is_byte_sum_mod_2_32_witness:
  "string_checksum32 (replicate 16843010 255) = Inr (Value 254)
   \<and> segments ff_block \<and> in_range 0 16843010
   \<and> range_bytes ff_block 0 16843010 = replicate 16843010 255
   \<and> fst (data_checksum32 ff_block zero_cache 0 16843010) = Inr (Value 254)"
proof -
  have s1: "segments ff_block"
    by (simp add: segments_def well_formed_def sample_defs)
  have r1: "in_range 0 16843010" by (simp add: in_range_def)
  have miss: "\<not> hit_c (crc32 zero_cache) 0 16843010"
    by (simp add: hit_c_def sample_defs)
  have rb: "range_bytes ff_block 0 16843010 = replicate 16843010 255"
    by (simp add: range_bytes_def block_slice_def sample_defs)
  have df: "fst (data_checksum32 ff_block zero_cache 0 16843010) \<noteq> Inr UNDEFINED"
    using miss by (simp add: fst_data_checksum32 ff_block_def)
  note t = checksum32_is_byte_sum_mod_2_32
      [where mem_block = "\<lparr>data = replicate 16843010 255, size_b = 16843010, base = 0\<rparr>"
        and rest = "[]" and offset = 0 and len = 16843010 and cache = zero_cache
        and s = "replicate 16843010 255"]
  have "string_checksum32 (replicate 16843010 255) = Inr (Value 254)
     \<and> fst (data_checksum32 ff_block zero_cache 0 16843010) = Inr (Value 254)"
    using t s1 r1 miss rb df
    by (simp add: ff_block_def sum_list_replicate)
  then show ?thesis using s1 r1 rb by simp
qed

subsection \<open>C8: the cache of a new session\<close>

text \<open>
  Claim C8. Right after \<^verbatim>\<open>module_load\<close> has allocated the cache of a session, every
  entry is empty (\<^verbatim>\<open>isSet\<close> false), so the first range request of the session is never
  answered from the cache.

  \<^verbatim>\<open>module_load\<close> stores the pointer returned by \<^verbatim>\<open>yr_malloc\<close> and writes no field of
  the block, and no other function of the module ever sets \<^verbatim>\<open>isSet\<close> to false. The
  cache of the session is the block as the allocator left it. The theorem states this,
  and evaluates the first request of a session whose block reads as a set checksum
  entry for \<open>(0, 4)\<close> with the sum 7: on the block \<open>abcd\<close> the request
  \<^verbatim>\<open>checksum32(0, 4)\<close> returns 7 from the cache; the sum of the bytes is 394.
\<close>

theorem module_load_leaves_cache_uninitialised:
  "snd (module_load block) = block
   \<and> isSet_c (crc32 (snd (module_load reused_block)))
   \<and> fst (data_checksum32 one_block (snd (module_load reused_block)) 0 4) = Inr (Value 7)
   \<and> string_checksum32 abcd = Inr (Value 394)"
  by (simp add: sample_defs module_load_def data_checksum32_def string_checksum32_def
      checksum_add_def)

subsection \<open>C9: the literal-string forms\<close>

text \<open>
  Claim C9. For every byte string, each literal-string function returns a defined value,
  never undefined, that is the digest of exactly that string. For the hash forms the
  value is the text of the digest that the engine, started afresh and fed the string
  once, leaves in its buffer: lowercase hexadecimal of fixed length (32 characters for
  MD5, 40 for SHA-1, 64 for SHA-256), two digits per byte in the order of the bytes, so
  that reading the text back gives the 16, 20 or 32 bytes of the digest. For the checksum
  the value is the sum of the bytes of the string modulo \<open>2^32\<close>. The functions take the
  string as their only input: they have no access to the blocks or the cache. As an
  instance of the format, the digest bytes \<^verbatim>\<open>00 0f a0 ff\<close> are printed as \<^verbatim>\<open>000fa0ff\<close>.
\<close>

theorem literal_forms_return_hex_of_digest:
  "(\<exists>d. string_md5 md5e s = Inr (Value d) \<and> length d = 32
        \<and> set d \<subseteq> set ''0123456789abcdef''
        \<and> decode_hex d = map (Final md5e (Update md5e (Init md5e) s)) [0..<16])
   \<and> (\<exists>d. string_sha1 sha1e s = Inr (Value d) \<and> length d = 40
        \<and> set d \<subseteq> set ''0123456789abcdef''
        \<and> decode_hex d = map (Final sha1e (Update sha1e (Init sha1e) s)) [0..<20])
   \<and> (\<exists>d. string_sha256 sha256e s = Inr (Value d) \<and> length d = 64
        \<and> set d \<subseteq> set ''0123456789abcdef''
        \<and> decode_hex d = map (Final sha256e (Update sha256e (Init sha256e) s)) [0..<32])
   \<and> string_checksum32 s = Inr (Value (int (sum_list (map unat s) mod 2 ^ 32)))
   \<and> digest_to_ascii ((!) [0, 15, 160, 255]) 4 = ''000fa0ff''
   \<and> string_md5 md5e s \<noteq> Inr UNDEFINED \<and> string_sha1 sha1e s \<noteq> Inr UNDEFINED
   \<and> string_sha256 sha256e s \<noteq> Inr UNDEFINED \<and> string_checksum32 s \<noteq> Inr UNDEFINED"
proof -
  have ex: "digest_to_ascii ((!) [0, 15, 160, 255]) 4 = ''000fa0ff''"
    by code_simp
  show ?thesis
    using digest_to_ascii_lowercase ex
    by (simp add: string_md5_def string_sha1_def string_sha256_def string_checksum32_def
        length_digest_to_ascii decode_hex_digest_to_ascii uint_checksum_add
        MD5_DIGEST_LENGTH_def SHA_DIGEST_LENGTH_def SHA256_DIGEST_LENGTH_def)
qed

subsection \<open>C10: a request of length 0\<close>

text \<open>
  Claim C10. For a request with \<open>length = 0\<close> and a valid offset, over well-formed
  ascending blocks and on a cache miss: if the offset lies in some block, the hash
  functions return the digest of the empty byte sequence and \<^verbatim>\<open>checksum32\<close> returns 0;
  if the offset lies in no block, the result is undefined.
\<close>

theorem empty_range_digest:
  assumes "segments (mem_block # rest)"
    and "0 \<le> offset" "base mem_block \<le> offset" "in_range offset 0"
    and "\<not> hit_h (md5 cache) offset 0" "\<not> hit_h (sha1 cache) offset 0"
    and "\<not> hit_h (sha256 cache) offset 0" "\<not> hit_c (crc32 cache) offset 0"
  shows "(mapped (mem_block # rest) offset \<longrightarrow>
            fst (data_md5 md5e (mem_block # rest) frame stack cache offset 0) = string_md5 md5e []
          \<and> fst (data_sha1 sha1e (mem_block # rest) frame stack cache offset 0)
              = string_sha1 sha1e []
          \<and> fst (data_sha256 sha256e (mem_block # rest) frame stack cache offset 0)
              = string_sha256 sha256e []
          \<and> fst (data_checksum32 (mem_block # rest) cache offset 0) = Inr (Value 0)
          \<and> string_checksum32 [] = Inr (Value 0))
       \<and> (\<not> mapped (mem_block # rest) offset \<longrightarrow>
            fst (data_md5 md5e (mem_block # rest) frame stack cache offset 0) = Inr UNDEFINED
          \<and> fst (data_sha1 sha1e (mem_block # rest) frame stack cache offset 0) = Inr UNDEFINED
          \<and> fst (data_sha256 sha256e (mem_block # rest) frame stack cache offset 0)
              = Inr UNDEFINED
          \<and> fst (data_checksum32 (mem_block # rest) cache offset 0) = Inr UNDEFINED)"
proof -
  have asc: "ascending (mem_block # rest)" using assms(1) by (simp add: segments_def)
  have h: "fst (data_digest E n slot slot_update (mem_block # rest) frame stack cache offset 0)
         = (if mapped (mem_block # rest) offset
            then Inr (Value (digest_to_ascii (Final E (Update E (Init E) [])) n))
            else Inr UNDEFINED)"
    if "\<not> hit_h (slot cache) offset 0"
    for slot and E :: "'e digest_engine" and n slot_update
    using data_digest_walk [where E = E and n = n and slot = slot and slot_update = slot_update
        and mem_block = mem_block and rest = rest and frame = frame and stack = stack
        and cache = cache and offset = offset and len = 0]
      assms(2) assms(3) that
      walk_empty_range_mapped [OF asc, of offset "Update E" "Init E"]
      walk_start_unmapped [of "mem_block # rest" offset "Update E" 0 "Init E"]
    by (simp del: foreach_memory_block.simps)
  have c: "fst (data_checksum32 (mem_block # rest) cache offset 0)
         = (if mapped (mem_block # rest) offset then Inr (Value 0) else Inr UNDEFINED)"
    using data_checksum32_walk [OF assms(2) _ assms(3) assms(8), of rest]
      walk_empty_range_mapped [OF asc, of offset checksum_add 0]
      walk_start_unmapped [of "mem_block # rest" offset checksum_add 0 0]
    by (simp add: checksum_add_def del: foreach_memory_block.simps)
  show ?thesis
    using h [of md5 md5e MD5_DIGEST_LENGTH md5_update]
      h [of sha1 sha1e SHA_DIGEST_LENGTH sha1_update]
      h [of sha256 sha256e SHA256_DIGEST_LENGTH sha256_update] c assms(5) assms(6) assms(7)
    by (simp add: data_md5_def data_sha1_def data_sha256_def string_md5_def string_sha1_def
        string_sha256_def string_checksum32_def checksum_add_def)
qed

text \<open>
  The theorem at the offset 5 with length 0: inside the second of the adjacent blocks
  the checksum is 0; in the gap of the blocks that lie apart the result is undefined.
\<close>

theorem empty_range_digest_witness:
  "segments adjacent_blocks \<and> in_range 5 0 \<and> mapped adjacent_blocks 5
   \<and> fst (data_checksum32 adjacent_blocks zero_cache 5 0) = Inr (Value 0)
   \<and> segments apart_blocks \<and> \<not> mapped apart_blocks 5
   \<and> fst (data_checksum32 apart_blocks zero_cache 5 0) = Inr UNDEFINED"
proof -
  have s1: "segments adjacent_blocks" and s2: "segments apart_blocks"
    by (simp_all add: segments_def well_formed_def sample_defs)
  have r1: "in_range 5 0" by (simp add: in_range_def)
  have m1: "mapped adjacent_blocks 5" and m2: "\<not> mapped apart_blocks 5"
    by (simp_all add: mapped_def in_block_def sample_defs)
  have miss: "\<not> hit_h (md5 zero_cache) o1 l1" "\<not> hit_h (sha1 zero_cache) o1 l1"
    "\<not> hit_h (sha256 zero_cache) o1 l1" "\<not> hit_c (crc32 zero_cache) o1 l1" for o1 l1
    by (simp_all add: hit_h_def hit_c_def sample_defs)
  have "fst (data_checksum32 adjacent_blocks zero_cache 5 0) = Inr (Value 0)"
    using empty_range_digest
        [where mem_block = "\<lparr>data = abcd, size_b = 4, base = 0\<rparr>"
        and rest = "[\<lparr>data = efgh, size_b = 4, base = 4\<rparr>]"
        and offset = 5 and cache = zero_cache, THEN conjunct1, THEN mp,
        THEN conjunct2, THEN conjunct2, THEN conjunct2, THEN conjunct1]
      s1 r1 m1 miss
    by (simp add: adjacent_blocks_def)
  moreover have "fst (data_checksum32 apart_blocks zero_cache 5 0) = Inr UNDEFINED"
    using empty_range_digest
        [where mem_block = "\<lparr>data = abcd, size_b = 4, base = 0\<rparr>"
        and rest = "[\<lparr>data = efgh, size_b = 4, base = 8\<rparr>]"
        and offset = 5 and cache = zero_cache, THEN conjunct2, THEN mp,
        THEN conjunct2, THEN conjunct2, THEN conjunct2]
      s2 r1 m2 miss
    by (simp add: apart_blocks_def)
  ultimately show ?thesis using s1 s2 r1 m1 m2 by simp
qed

end
